theory Spec2Isabelle
  imports Main "HOL-Library.Word"
begin

section \<open>Strings\<close>

text \<open>
  Go strings are byte sequences; they are modelled as \<open>string\<close> (a list of \<open>char\<close>).
  \<open>strings.Split(s, sep)\<close> is used by the program with the one-byte separators
  \<open>"\n"\<close> (review builder) and \<open>","\<close> (command-line patterns). For a non-empty separator
  it returns the pieces between the occurrences of the separator, so a string with \<open>n\<close>
  separators gives \<open>n + 1\<close> pieces and the empty string gives one empty piece.
\<close>

fun Split :: "string \<Rightarrow> char \<Rightarrow> string list" where
  "Split [] sep = [[]]"
| "Split (c # cs) sep =
     (if c = sep then [] # Split cs sep
      else (c # hd (Split cs sep)) # tl (Split cs sep))"

lemma Split_nonempty: "Split s sep \<noteq> []"
  by (induction s) auto

lemma Split_append_sep: "Split (s @ [sep]) sep = Split s sep @ [[]]"
proof (induction s)
  case Nil
  show ?case by simp
next
  case (Cons c cs)
  have ne: "Split cs sep \<noteq> []" by (rule Split_nonempty)
  then obtain p ps where p: "Split cs sep = p # ps" by (cases "Split cs sep") auto
  with Cons.IH show ?case by simp
qed

text \<open>
  The decimal digits of a non-negative integer, as \<open>strconv\<close> and the verb \<open>%d\<close> print
  them.
\<close>

definition digit :: "nat \<Rightarrow> char" where
  "digit d = char_of (48 + d)"

fun itoa :: "nat \<Rightarrow> string" where
  "itoa n = (if n < 10 then [digit n] else itoa (n div 10) @ [digit (n mod 10)])"

declare itoa.simps [simp del]

text \<open>
  \<open>fmt.Sprintf("%4d", n)\<close> for \<open>n \<ge> 0\<close>: the digits, padded with spaces on the left to a
  width of at least four. A number of more than four digits is printed in full.
\<close>

definition Sprintf_4d :: "nat \<Rightarrow> string" where
  "Sprintf_4d n = replicate (4 - length (itoa n)) (CHR '' '') @ itoa n"

section \<open>Paths\<close>

text \<open>
  The lexical path functions of Go's \<open>path/filepath\<close> on Unix (separator \<open>/\<close>, no
  volume names), as the standard library documents them. \<open>Clean\<close> drops empty and
  \<open>.\<close> elements, lets \<open>..\<close> remove the element before it (or stay, at the start of a
  path that is not rooted; or vanish, at the root), and turns the empty result into \<open>.\<close>.
  \<open>cleanElems\<close> does this on the list of elements, \<open>out\<close> being the elements written so
  far, last first.
\<close>

fun cleanElems :: "bool \<Rightarrow> string list \<Rightarrow> string list \<Rightarrow> string list" where
  "cleanElems rooted out [] = rev out"
| "cleanElems rooted out (e # es) =
     (if e = [] \<or> e = ''.'' then cleanElems rooted out es
      else if e = ''..'' then
        (case out of
           [] \<Rightarrow> cleanElems rooted (if rooted then [] else [e]) es
         | t # ts \<Rightarrow> if t = ''..'' then cleanElems rooted (e # out) es
                     else cleanElems rooted ts es)
      else cleanElems rooted (e # out) es)"

fun joinElems :: "string list \<Rightarrow> string" where
  "joinElems [] = []"
| "joinElems [e] = e"
| "joinElems (e # es) = e @ ''/'' @ joinElems es"

definition Clean :: "string \<Rightarrow> string" where
  "Clean path =
     (if path = [] then ''.''
      else let rooted = (hd path = CHR ''/'');
               body = joinElems (cleanElems rooted [] (Split path (CHR ''/'')))
           in if rooted then CHR ''/'' # body
              else if body = [] then ''.'' else body)"

text \<open>
  \<open>filepath.Dir\<close> cleans the path up to and including its last separator;
  \<open>filepath.Join\<close> cleans the non-empty elements joined by a separator.
\<close>

definition dirPrefix :: "string \<Rightarrow> string" where
  "dirPrefix path = rev (dropWhile (\<lambda>c. c \<noteq> CHR ''/'') (rev path))"

definition Dir :: "string \<Rightarrow> string" where
  "Dir path = Clean (dirPrefix path)"

definition Join :: "string \<Rightarrow> string \<Rightarrow> string" where
  "Join a b =
     (if a \<noteq> [] then Clean (a @ ''/'' @ b)
      else if b \<noteq> [] then Clean b
      else [])"

text \<open>
  \<open>filepath.Ext\<close>: the suffix from the last dot of the last element, scanning from the
  end of the path; empty when there is no dot. \<open>filepath.Base\<close>: the last element,
  after trailing separators are removed.
\<close>

fun extFrom :: "string \<Rightarrow> string \<Rightarrow> string" where
  "extFrom acc [] = []"
| "extFrom acc (c # cs) =
     (if c = CHR ''/'' then []
      else if c = CHR ''.'' then c # acc
      else extFrom (c # acc) cs)"

definition Ext :: "string \<Rightarrow> string" where
  "Ext path = extFrom [] (rev path)"


definition Base :: "string \<Rightarrow> string" where
  "Base path =
     (if path = [] then ''.''
      else let stripped = rev (dropWhile (\<lambda>c. c = CHR ''/'') (rev path));
               elem = rev (takeWhile (\<lambda>c. c \<noteq> CHR ''/'') (rev stripped))
           in if elem = [] then ''/'' else elem)"

subsection \<open>The parent of a directory is a smaller path\<close>

text \<open>
  \<open>findMatcherForDir\<close> recurses on \<open>filepath.Dir(dir)\<close> until it reaches the scan root,
  \<open>.\<close> or \<open>/\<close>. The recursion ends because \<open>Dir\<close> of any other path is \<open>.\<close>, \<open>/\<close> or
  a strictly shorter path.
\<close>

definition pathMeasure :: "string \<Rightarrow> nat" where
  "pathMeasure p = (if p = ''.'' \<or> p = ''/'' then 0 else length p + 1)"

definition elemsLen :: "string list \<Rightarrow> nat" where
  "elemsLen es = sum_list (map (\<lambda>e. length e + 1) es)"

lemma elemsLen_Cons [simp]: "elemsLen (e # es) = length e + 1 + elemsLen es"
  by (simp add: elemsLen_def)

lemma elemsLen_Nil [simp]: "elemsLen [] = 0"
  by (simp add: elemsLen_def)

lemma elemsLen_rev [simp]: "elemsLen (rev es) = elemsLen es"
  by (simp add: elemsLen_def rev_map[symmetric])

lemma length_joinElems: "es \<noteq> [] \<Longrightarrow> length (joinElems es) + 1 = elemsLen es"
  by (induction es rule: joinElems.induct) auto

lemma elemsLen_cleanElems:
  "elemsLen (cleanElems r out es) \<le> elemsLen out + elemsLen (filter (\<lambda>e. e \<noteq> []) es)"
proof (induction r out es rule: cleanElems.induct)
  case (1 rooted out)
  show ?case by simp
next
  case (2 rooted out e es)
  show ?case
  proof (cases "e = [] \<or> e = ''.''")
    case True
    with 2(1) show ?thesis by auto
  next
    case a: False
    show ?thesis
    proof (cases "e = ''..''")
      case b: True
      show ?thesis
      proof (cases out)
        case Nil
        with a b 2(2) show ?thesis by (cases rooted) auto
      next
        case (Cons t ts)
        show ?thesis
        proof (cases "t = ''..''")
          case True
          with a b Cons 2(3) show ?thesis by simp
        next
          case False
          with a b Cons 2(4) show ?thesis by simp
        qed
      qed
    next
      case False
      with a 2(5) show ?thesis by simp
    qed
  qed
qed

lemma elemsLen_Split: "elemsLen (Split s sep) = length s + 1"
proof (induction s)
  case Nil
  show ?case by simp
next
  case (Cons c cs)
  obtain p ps where p: "Split cs sep = p # ps"
    using Split_nonempty[of cs sep] by (cases "Split cs sep") auto
  with Cons.IH show ?case by simp
qed


lemma empties_le:
  "elemsLen (filter (\<lambda>e. e \<noteq> []) es) + length (filter (\<lambda>e. e = []) es) = elemsLen es"
  by (induction es) auto

lemma dirPrefix_cases:
  "dirPrefix p = [] \<or> (\<exists>q. dirPrefix p = q @ ''/'' \<and> length (dirPrefix p) \<le> length p)"
proof -
  let ?d = "dropWhile (\<lambda>c. c \<noteq> CHR ''/'') (rev p)"
  show ?thesis
  proof (cases ?d)
    case Nil
    then show ?thesis by (simp add: dirPrefix_def)
  next
    case (Cons c cs)
    have "c = CHR ''/''" using hd_dropWhile[of "\<lambda>c. c \<noteq> CHR ''/''" "rev p"] Cons by simp
    moreover have "length ?d \<le> length p" using length_dropWhile_le[of _ "rev p"] by simp
    ultimately show ?thesis using Cons by (simp add: dirPrefix_def)
  qed
qed


lemma empties_last: "es \<noteq> [] \<Longrightarrow> last es = [] \<Longrightarrow> 1 \<le> length (filter (\<lambda>e. e = []) es)"
  by (induction es) (auto split: if_splits)

lemma Split_last_sep: "last (Split (q @ [sep]) sep) = [] \<and> Split (q @ [sep]) sep \<noteq> []"
  by (simp add: Split_append_sep)

lemma Clean_trailing_slash:
  assumes p: "p = q @ ''/''"
  shows "Clean p = ''.'' \<or> Clean p = ''/'' \<or> length (Clean p) < length p"
proof -
  let ?es = "Split p (CHR ''/'')"
  let ?r = "hd p = CHR ''/''"
  let ?out = "cleanElems ?r [] ?es"
  have ne: "p \<noteq> []" using p by simp
  have tot: "elemsLen (filter (\<lambda>e. e \<noteq> []) ?es) + length (filter (\<lambda>e. e = []) ?es) = length p + 1"
    by (simp add: empties_le elemsLen_Split)
  have out: "elemsLen ?out \<le> elemsLen (filter (\<lambda>e. e \<noteq> []) ?es)"
    using elemsLen_cleanElems[of ?r "[]" ?es] by simp
  have e1: "1 \<le> length (filter (\<lambda>e. e = []) ?es)"
    using Split_last_sep[of q "CHR ''/''"] p by (intro empties_last) auto
  show ?thesis
  proof (cases ?r)
    case True
    then obtain t where t: "p = CHR ''/'' # t" using ne by (cases p) auto
    have "last (Split t (CHR ''/'')) = [] \<and> Split t (CHR ''/'') \<noteq> []"
    proof (cases q)
      case Nil
      with p t show ?thesis by simp
    next
      case (Cons a q')
      with p t have "t = q' @ ''/''" by simp
      then show ?thesis using Split_last_sep[of q' "CHR ''/''"] by simp
    qed
    then have "1 \<le> length (filter (\<lambda>e. e = []) (Split t (CHR ''/'')))"
      by (intro empties_last) auto
    then have e2: "2 \<le> length (filter (\<lambda>e. e = []) ?es)" using t by simp
    show ?thesis
    proof (cases "?out = []")
      case o: True
      with True ne show ?thesis by (simp add: Clean_def)
    next
      case False
      then have "length (joinElems ?out) + 1 = elemsLen ?out" by (rule length_joinElems)
      with out tot e2 have "length (joinElems ?out) + 1 < length p" by linarith
      with True ne show ?thesis by (simp add: Clean_def Let_def)
    qed
  next
    case nr: False
    show ?thesis
    proof (cases "?out = []")
      case True
      with nr ne show ?thesis by (simp add: Clean_def)
    next
      case False
      then have "length (joinElems ?out) + 1 = elemsLen ?out" by (rule length_joinElems)
      with out tot e1 have "length (joinElems ?out) < length p" by linarith
      with nr ne show ?thesis by (simp add: Clean_def Let_def)
    qed
  qed
qed

lemma Dir_decreases:
  assumes "dir \<noteq> ''.''" "dir \<noteq> ''/''"
  shows "pathMeasure (Dir dir) < pathMeasure dir"
proof -
  from dirPrefix_cases[of dir] show ?thesis
  proof
    assume "dirPrefix dir = []"
    then have "Dir dir = ''.''" by (simp add: Dir_def Clean_def)
    with assms show ?thesis by (simp add: pathMeasure_def)
  next
    assume "\<exists>q. dirPrefix dir = q @ ''/'' \<and> length (dirPrefix dir) \<le> length dir"
    then obtain q where q: "dirPrefix dir = q @ ''/''" and le: "length (dirPrefix dir) \<le> length dir"
      by blast
    from Clean_trailing_slash[OF q] le assms show ?thesis
      by (auto simp: Dir_def pathMeasure_def)
  qed
qed

section \<open>Template data (package templates)\<close>

record FileData =
  Path :: string
  Content :: string
  Language :: string

text \<open>The zero value of the struct, which a builder holds until \<open>SetSummary\<close> is called.\<close>

definition zeroFileData :: FileData where
  "zeroFileData = \<lparr>Path = [], Content = [], Language = []\<rparr>"

datatype TemplatePath = Review | Default | LLM

section \<open>The review builder (package builder)\<close>

record ReviewFileData =
  rfPath :: string
  rfLanguage :: string
  Lines :: "string list"

text \<open>
  The inner loop of \<open>ReviewBuilder.Build\<close>:
  \<^verbatim>\<open>for i, line := range lines { numberedLines = append(numberedLines, fmt.Sprintf("%4d: %s", i+1, line)) }\<close>
  with the index \<open>i\<close> passed along.
\<close>

fun numberLinesFrom :: "nat \<Rightarrow> string list \<Rightarrow> string list" where
  "numberLinesFrom i [] = []"
| "numberLinesFrom i (line # ls) =
     (Sprintf_4d (i + 1) @ '': '' @ line) # numberLinesFrom (i + 1) ls"

definition numberedLines :: "string \<Rightarrow> string list" where
  "numberedLines content = numberLinesFrom 0 (Split content (CHR 0x0A))"

definition reviewFile :: "FileData \<Rightarrow> ReviewFileData" where
  "reviewFile file =
     \<lparr>rfPath = Path file, rfLanguage = Language file, Lines = numberedLines (Content file)\<rparr>"

text \<open>The outer loop of \<open>ReviewBuilder.Build\<close>: one \<open>ReviewFileData\<close> per file, in order.\<close>

fun reviewFiles :: "FileData list \<Rightarrow> ReviewFileData list" where
  "reviewFiles [] = []"
| "reviewFiles (file # fs) = reviewFile file # reviewFiles fs"

section \<open>The document builders (package builder)\<close>

text \<open>
  What a builder hands to \<open>templates.ExecuteTemplate\<close>: \<open>templates.TemplateData\<close> for the
  default and LLM builders, and the anonymous struct of \<open>ReviewBuilder.Build\<close>, whose
  files carry numbered lines.
\<close>

datatype TemplateInput =
    TemplateData string FileData "FileData list"
  | ReviewTemplateData string FileData "ReviewFileData list"

datatype error =
    SkipDir
  | OSError string
  | TotalSizeLimitExceeded "64 word"

text \<open>
  The three implementations of the interface \<open>DocumentBuilder\<close> hold the same state; the
  variant is kept in \<open>kind\<close>. The summary is the \<open>FileData\<close> that \<open>run\<close> passes to
  \<open>SetSummary\<close> (the review and LLM builders store it as such; the default builder of this
  snapshot declares a string).
\<close>

datatype BuilderKind = ReviewBuilder | LLMBuilder | DefaultBuilder

record DocumentBuilder =
  kind :: BuilderKind
  projectName :: string
  projectSummary :: FileData
  files :: "FileData list"

definition NewReviewBuilder :: DocumentBuilder where
  "NewReviewBuilder =
     \<lparr>kind = ReviewBuilder, projectName = [], projectSummary = zeroFileData, files = []\<rparr>"

definition NewLLMBuilder :: DocumentBuilder where
  "NewLLMBuilder =
     \<lparr>kind = LLMBuilder, projectName = [], projectSummary = zeroFileData, files = []\<rparr>"

definition NewDefaultBuilder :: DocumentBuilder where
  "NewDefaultBuilder =
     \<lparr>kind = DefaultBuilder, projectName = [], projectSummary = zeroFileData, files = []\<rparr>"

definition SetProjectName :: "DocumentBuilder \<Rightarrow> string \<Rightarrow> DocumentBuilder" where
  "SetProjectName b name = b\<lparr>projectName := name\<rparr>"

definition SetSummary :: "DocumentBuilder \<Rightarrow> FileData \<Rightarrow> DocumentBuilder" where
  "SetSummary b summary = b\<lparr>projectSummary := summary\<rparr>"

definition AddFile :: "DocumentBuilder \<Rightarrow> FileData \<Rightarrow> DocumentBuilder" where
  "AddFile b file = b\<lparr>files := files b @ [file]\<rparr>"

section \<open>The operating system and the libraries\<close>

text \<open>
  The program reaches the file system and two libraries through the calls below. They are
  the fields of an environment, fixed for one run (the tree is taken to be static during
  a scan):
  \<^item> \<open>Stat p\<close>: \<open>os.Stat(p)\<close> returns no error;
  \<^item> \<open>ReadFile p\<close>: the content \<open>os.ReadFile(p)\<close> returns, or \<open>None\<close> when it fails;
  \<^item> \<open>CompileIgnoreFile p\<close>: the matcher \<open>ignore.CompileIgnoreFile(p)\<close> returns, or
    \<open>None\<close> when it returns an error;
  \<^item> \<open>CompileIgnoreLines\<close> and \<open>MatchesPath\<close>: the matcher compiled from pattern lines, and
    whether a matcher matches a path (package go-gitignore; \<open>'m\<close> is its matcher type);
  \<^item> \<open>Rel\<close>: \<open>filepath.Rel\<close>, \<open>None\<close> when it returns an error;
  \<^item> \<open>ExecuteTemplate\<close>: \<open>templates.ExecuteTemplate\<close>, which renders the embedded
    template;
  \<^item> \<open>WriteOutput\<close>: the error, if any, of copying the document to the output writer.
\<close>

record 'm Env =
  Stat :: "string \<Rightarrow> bool"
  ReadFile :: "string \<Rightarrow> string option"
  CompileIgnoreFile :: "string \<Rightarrow> 'm option"
  CompileIgnoreLines :: "string list \<Rightarrow> 'm"
  MatchesPath :: "'m \<Rightarrow> string \<Rightarrow> bool"
  Rel :: "string \<Rightarrow> string \<Rightarrow> string option"
  ExecuteTemplate :: "TemplatePath \<Rightarrow> TemplateInput \<Rightarrow> error + string"
  WriteOutput :: "string \<Rightarrow> error option"

text \<open>\<open>Build\<close> of the three builders.\<close>

definition Build :: "'m Env \<Rightarrow> DocumentBuilder \<Rightarrow> error + string" where
  "Build env b =
     (case kind b of
        ReviewBuilder \<Rightarrow>
          ExecuteTemplate env Review
            (ReviewTemplateData (projectName b) (projectSummary b) (reviewFiles (files b)))
      | LLMBuilder \<Rightarrow>
          ExecuteTemplate env LLM (TemplateData (projectName b) (projectSummary b) (files b))
      | DefaultBuilder \<Rightarrow>
          ExecuteTemplate env Default (TemplateData (projectName b) (projectSummary b) (files b)))"

text \<open>
  A directory tree as \<open>filepath.WalkDir\<close> sees it. A file entry has its name and the size
  that \<open>d.Info()\<close> reports (\<open>None\<close> when \<open>Info\<close> fails); every entry that is not a
  directory (a symbolic link too) is such an entry. A directory has its name, the error of
  \<open>os.ReadDir\<close> if it fails, and its entries in listing order. The program asks for the
  \<open>Info\<close> of files only.
\<close>

datatype DirEntry =
    File string "64 word option"
  | Directory string "string option" "DirEntry list"

fun IsDir :: "DirEntry \<Rightarrow> bool" where
  "IsDir (File name info) = False"
| "IsDir (Directory name readErr entries) = True"

fun Name :: "DirEntry \<Rightarrow> string" where
  "Name (File name info) = name"
| "Name (Directory name readErr entries) = name"

fun Info :: "DirEntry \<Rightarrow> 64 word option" where
  "Info (File name info) = info"
| "Info (Directory name readErr entries) = Some 0"

section \<open>The generator (generator.go)\<close>

definition binaryExts :: "string list" where
  "binaryExts =
     [''.exe'', ''.dll'', ''.so'', ''.a'', ''.lib'', ''.o'',
      ''.zip'', ''.gz'', ''.tar'', ''.rar'', ''.7z'',
      ''.png'', ''.jpg'', ''.jpeg'', ''.gif'', ''.bmp'', ''.ico'',
      ''.pdf'', ''.doc'', ''.docx'', ''.xls'', ''.xlsx'', ''.ppt'', ''.pptx'']"

definition getFileLanguage :: "string \<Rightarrow> string" where
  "getFileLanguage path =
     (let ext = Ext path in
      if ext = ''.go'' then ''go''
      else if ext = ''.js'' then ''javascript''
      else if ext = ''.ts'' then ''typescript''
      else if ext = ''.py'' then ''python''
      else if ext = ''.md'' then ''markdown''
      else if ext = ''.json'' then ''json''
      else if ext = ''.html'' then ''html''
      else if ext = ''.css'' then ''css''
      else if ext = ''.yaml'' \<or> ext = ''.yml'' then ''yaml''
      else if ext = ''.sh'' then ''shell''
      else [])"

text \<open>The lines that \<open>processPath\<close> writes with \<open>log.Printf\<close>.\<close>

datatype LogLine =
    SkippingBinary string
  | CouldNotGetFileInfo string
  | SkippingLargeFile string "64 word"
  | CouldNotReadFile string

text \<open>
  The struct \<open>Generator\<close>. The sizes are \<open>int64\<close>: 64-bit words, compared as signed
  numbers. \<open>matcherCache\<close> maps a directory to a matcher or to \<open>nil\<close>: the outer \<open>option\<close>
  is the presence of the key, the inner one the \<open>nil\<close>. \<open>logged\<close> is the log output so
  far; it is not a field of the struct.
\<close>

record 'm Generator =
  builder :: DocumentBuilder
  cliIgnoreMatcher :: "'m option"
  srcDir :: string
  maxSizeBytes :: "64 word"
  totalSizeLimit :: "64 word"
  currentTotalSize :: "64 word"
  matcherCache :: "string \<Rightarrow> 'm option option"
  logged :: "LogLine list"

definition WithCliIgnore :: "'m Env \<Rightarrow> string \<Rightarrow> 'm Generator \<Rightarrow> 'm Generator" where
  "WithCliIgnore env patterns g =
     (if patterns = [] then g
      else g\<lparr>cliIgnoreMatcher := Some (CompileIgnoreLines env (Split patterns (CHR '','')))\<rparr>)"

definition WithBuilder :: "DocumentBuilder \<Rightarrow> 'm Generator \<Rightarrow> 'm Generator" where
  "WithBuilder b g = g\<lparr>builder := b\<rparr>"

definition WithSrcDir :: "string \<Rightarrow> 'm Generator \<Rightarrow> 'm Generator" where
  "WithSrcDir dir g = g\<lparr>srcDir := dir\<rparr>"

definition WithMaxSize :: "64 word \<Rightarrow> 'm Generator \<Rightarrow> 'm Generator" where
  "WithMaxSize kb g = g\<lparr>maxSizeBytes := kb * 1024\<rparr>"

definition WithTotalSizeLimit :: "64 word \<Rightarrow> 'm Generator \<Rightarrow> 'm Generator" where
  "WithTotalSizeLimit mb g = g\<lparr>totalSizeLimit := mb * 1024 * 1024\<rparr>"

text \<open>
  \<open>NewGenerator\<close> starts from the zero value of the struct with an empty cache and applies
  the options in order. The interface field \<open>builder\<close> is \<open>nil\<close> until \<open>WithBuilder\<close> sets
  it; \<open>run\<close> always does, and the value used before that is never read.
\<close>

definition zeroGenerator :: "'m Generator" where
  "zeroGenerator =
     \<lparr>builder = NewDefaultBuilder, cliIgnoreMatcher = None, srcDir = [],
      maxSizeBytes = 0, totalSizeLimit = 0, currentTotalSize = 0,
      matcherCache = (\<lambda>dir. None), logged = []\<rparr>"

definition NewGenerator :: "('m Generator \<Rightarrow> 'm Generator) list \<Rightarrow> 'm Generator" where
  "NewGenerator opts = fold (\<lambda>opt g. opt g) opts zeroGenerator"

subsection \<open>findMatcherForDir\<close>

definition localMatcher :: "'m Env \<Rightarrow> string \<Rightarrow> 'm option" where
  "localMatcher env dir =
     (let ignorePath = Join dir ''.gitignore'' in
      if Stat env ignorePath then CompileIgnoreFile env ignorePath else None)"

function findMatcherForDir ::
  "'m Env \<Rightarrow> 'm Generator \<Rightarrow> string \<Rightarrow> 'm option \<times> 'm Generator" where
  "findMatcherForDir env g dir =
     (case matcherCache g dir of
        Some matcher \<Rightarrow> (matcher, g)
      | None \<Rightarrow>
          (case localMatcher env dir of
             Some matcher \<Rightarrow>
               (Some matcher, g\<lparr>matcherCache := (matcherCache g)(dir \<mapsto> Some matcher)\<rparr>)
           | None \<Rightarrow>
               if dir = srcDir g \<or> dir = ''.'' \<or> dir = ''/''
               then (None, g\<lparr>matcherCache := (matcherCache g)(dir \<mapsto> None)\<rparr>)
               else (case findMatcherForDir env g (Dir dir) of
                       (parentMatcher, g') \<Rightarrow>
                         (parentMatcher,
                          g'\<lparr>matcherCache := (matcherCache g')(dir \<mapsto> parentMatcher)\<rparr>))))"
  by pat_completeness auto
termination
  by (relation "measure (\<lambda>(env, g, dir). pathMeasure dir)") (auto simp: Dir_decreases)

declare findMatcherForDir.simps [simp del]

subsection \<open>processPath\<close>

definition matches :: "'m Env \<Rightarrow> 'm option \<Rightarrow> string \<Rightarrow> bool" where
  "matches env matcher path =
     (case matcher of None \<Rightarrow> False | Some m \<Rightarrow> MatchesPath env m path)"

text \<open>
  The body of \<open>if !d.IsDir() { ... }\<close>: the checks on a file that the ignore rules let
  through, in the order of the source.
\<close>

definition processFile ::
  "'m Env \<Rightarrow> string \<Rightarrow> DirEntry \<Rightarrow> 'm Generator \<Rightarrow> error option \<times> 'm Generator" where
  "processFile env path d g =
     (let ext = Ext path in
      if ext \<in> set binaryExts
      then (None, g\<lparr>logged := logged g @ [SkippingBinary path]\<rparr>)
      else
        (case Info d of
           None \<Rightarrow> (None, g\<lparr>logged := logged g @ [CouldNotGetFileInfo path]\<rparr>)
         | Some sz \<Rightarrow>
             if 0 <s maxSizeBytes g \<and> maxSizeBytes g <s sz
             then (None, g\<lparr>logged := logged g @ [SkippingLargeFile path sz]\<rparr>)
             else if 0 <s totalSizeLimit g \<and> totalSizeLimit g <s currentTotalSize g + sz
             then (Some (TotalSizeLimitExceeded (totalSizeLimit g)), g)
             else
               (case ReadFile env path of
                  None \<Rightarrow> (None, g\<lparr>logged := logged g @ [CouldNotReadFile path]\<rparr>)
                | Some content \<Rightarrow>
                    (let relativePath =
                           (case Rel env (srcDir g) path of Some r \<Rightarrow> r | None \<Rightarrow> path);
                         file = \<lparr>Path = relativePath, Content = content,
                                 Language = getFileLanguage relativePath\<rparr>
                     in (None, g\<lparr>currentTotalSize := currentTotalSize g + sz,
                                 builder := AddFile (builder g) file\<rparr>)))))"

text \<open>
  \<open>processPath(path, d, err)\<close>. \<open>WalkDir\<close> passes a \<open>nil\<close> entry only together with an
  error, and \<open>processPath\<close> returns that error before it looks at the entry; a \<open>nil\<close> entry
  without an error would be a nil dereference, which the model gives as an error value.
\<close>

definition processPath ::
  "'m Env \<Rightarrow> string \<Rightarrow> DirEntry option \<Rightarrow> error option \<Rightarrow> 'm Generator
   \<Rightarrow> error option \<times> 'm Generator" where
  "processPath env path entry err g =
     (case err of
        Some e \<Rightarrow> (Some e, g)
      | None \<Rightarrow>
          (case entry of
             None \<Rightarrow> (Some (OSError ''nil pointer dereference''), g)
           | Some d \<Rightarrow>
               if IsDir d \<and> Name d = ''.git'' then (Some SkipDir, g)
               else
                 (case findMatcherForDir env g (Dir path) of
                    (gitMatcher, g1) \<Rightarrow>
                      if matches env gitMatcher path \<or> matches env (cliIgnoreMatcher g1) path
                      then (if IsDir d then (Some SkipDir, g1) else (None, g1))
                      else if \<not> IsDir d then processFile env path d g1
                      else (None, g1))))"

subsection \<open>filepath.WalkDir\<close>

text \<open>
  \<open>filepath.WalkDir(root, fn)\<close> of the standard library, with the state that the callback
  changes passed along. \<open>walkDir\<close> calls \<open>fn\<close> on the entry; for a directory that \<open>fn\<close>
  accepts it lists the entries (after a failed listing it calls \<open>fn\<close> a second time, with
  the error) and walks them in order. \<open>SkipDir\<close> from a directory skips that directory;
  from any other entry it skips the rest of the containing directory. Any other error
  ends the walk. (\<open>SkipAll\<close> is left out: \<open>processPath\<close> never returns it.)
\<close>

definition skipped :: "error option \<Rightarrow> error option" where
  "skipped err = (if err = Some SkipDir then None else err)"

fun walkDir ::
  "(string \<Rightarrow> DirEntry option \<Rightarrow> error option \<Rightarrow> 's \<Rightarrow> error option \<times> 's)
   \<Rightarrow> string \<Rightarrow> DirEntry \<Rightarrow> 's \<Rightarrow> error option \<times> 's"
and walkDirs ::
  "(string \<Rightarrow> DirEntry option \<Rightarrow> error option \<Rightarrow> 's \<Rightarrow> error option \<times> 's)
   \<Rightarrow> string \<Rightarrow> DirEntry list \<Rightarrow> 's \<Rightarrow> error option \<times> 's"
where
  "walkDir fn path (File name info) s = fn path (Some (File name info)) None s"
| "walkDir fn path (Directory name readErr dirs) s =
     (case fn path (Some (Directory name readErr dirs)) None s of
        (Some err, s1) \<Rightarrow> (skipped (Some err), s1)
      | (None, s1) \<Rightarrow>
          (case readErr of
             Some e \<Rightarrow>
               (case fn path (Some (Directory name readErr dirs)) (Some (OSError e)) s1 of
                  (Some err, s2) \<Rightarrow> (skipped (Some err), s2)
                | (None, s2) \<Rightarrow> walkDirs fn path dirs s2)
           | None \<Rightarrow> walkDirs fn path dirs s1))"
| "walkDirs fn path [] s = (None, s)"
| "walkDirs fn path (d1 # ds) s =
     (case walkDir fn (Join path (Name d1)) d1 s of
        (Some err, s1) \<Rightarrow> (skipped (Some err), s1)
      | (None, s1) \<Rightarrow> walkDirs fn path ds s1)"

text \<open>
  The root is what \<open>os.Lstat(root)\<close> finds: an error, or the entry to walk from.
\<close>

definition WalkDir ::
  "(string \<Rightarrow> DirEntry option \<Rightarrow> error option \<Rightarrow> 's \<Rightarrow> error option \<times> 's)
   \<Rightarrow> string \<Rightarrow> string + DirEntry \<Rightarrow> 's \<Rightarrow> error option \<times> 's" where
  "WalkDir fn root lstat s =
     (case (case lstat of
              Inl e \<Rightarrow> fn root None (Some (OSError e)) s
            | Inr d \<Rightarrow> walkDir fn root d s) of
        (err, s1) \<Rightarrow> (skipped err, s1))"

definition Walk :: "'m Env \<Rightarrow> string + DirEntry \<Rightarrow> 'm Generator \<Rightarrow> error option \<times> 'm Generator" where
  "Walk env lstat g = WalkDir (processPath env) (srcDir g) lstat g"

section \<open>The application (main.go)\<close>

record Config =
  SrcDir :: string
  OutputFile :: string
  IgnoreCli :: string
  Format :: string
  MaxSizeKB :: "64 word"
  MaxTotalSizeMB :: "64 word"

text \<open>
  \<open>run(cfg, output)\<close>, given what is found at \<open>cfg.SrcDir\<close>. The result is the error that
  \<open>run\<close> returns, or the document that it has written to \<open>output\<close>.
\<close>

definition selectBuilder :: "string \<Rightarrow> DocumentBuilder" where
  "selectBuilder format =
     (if format = ''review'' then NewReviewBuilder
      else if format = ''llm'' then NewLLMBuilder
      else NewDefaultBuilder)"

text \<open>The builder and the generator that \<open>run\<close> sets up before the walk.\<close>

definition runBuilder :: "'m Env \<Rightarrow> Config \<Rightarrow> DocumentBuilder" where
  "runBuilder env cfg =
     (let build = SetProjectName (selectBuilder (Format cfg)) (Base (SrcDir cfg));
          readmePath = Join (SrcDir cfg) ''README.md''
      in case ReadFile env readmePath of
           Some content \<Rightarrow>
             SetSummary build
               \<lparr>Path = [], Content = content, Language = getFileLanguage readmePath\<rparr>
         | None \<Rightarrow> build)"

definition runGenerator :: "'m Env \<Rightarrow> Config \<Rightarrow> 'm Generator" where
  "runGenerator env cfg =
     NewGenerator
       [WithBuilder (runBuilder env cfg), WithSrcDir (SrcDir cfg),
        WithCliIgnore env (IgnoreCli cfg), WithMaxSize (MaxSizeKB cfg),
        WithTotalSizeLimit (MaxTotalSizeMB cfg)]"

definition run :: "'m Env \<Rightarrow> Config \<Rightarrow> string + DirEntry \<Rightarrow> error + string" where
  "run env cfg lstat =
     (case Walk env lstat (runGenerator env cfg) of
        (Some err, g) \<Rightarrow> Inl err
      | (None, g) \<Rightarrow>
          (case Build env (builder g) of
             Inl err \<Rightarrow> Inl err
           | Inr doc \<Rightarrow>
               (case WriteOutput env doc of
                  Some err \<Rightarrow> Inl err
                | None \<Rightarrow> Inr doc)))"

subsection \<open>The earlier builder (builder.go)\<close>

text \<open>
  \<open>MarkdownBuilder.Build(format)\<close> of \<open>builder.go\<close> chooses the template by the format
  identifier itself. \<open>executeTemplate\<close> stands for reading, parsing and executing the
  embedded template at the given path.
\<close>

record MarkdownBuilder =
  mbProjectName :: string
  mbFiles :: "FileData list"

definition MarkdownBuilder_Build ::
  "(string \<Rightarrow> string \<Rightarrow> FileData list \<Rightarrow> error + string) \<Rightarrow> MarkdownBuilder \<Rightarrow> string
   \<Rightarrow> error + string" where
  "MarkdownBuilder_Build executeTemplate b format =
     (if format = ''review''
      then executeTemplate ''templates/review.md.tmpl'' (mbProjectName b) (mbFiles b)
      else if format = ''llm''
      then executeTemplate ''templates/llm.txt.tmpl'' (mbProjectName b) (mbFiles b)
      else if format = ''default''
      then executeTemplate ''templates/default.md.tmpl'' (mbProjectName b) (mbFiles b)
      else Inl (OSError (''unknown format: '' @ format)))"

section \<open>The walk as a function of the tree\<close>

text \<open>
  The resolver as the specification words it, without a cache: the rule set of a directory
  is the one compiled from its own rules file if that is present and parseable; otherwise
  none at the scan root (or at \<open>.\<close> or \<open>/\<close>); otherwise the rule set of the parent.
\<close>

function resolve :: "'m Env \<Rightarrow> string \<Rightarrow> string \<Rightarrow> 'm option" where
  "resolve env root dir =
     (case localMatcher env dir of
        Some matcher \<Rightarrow> Some matcher
      | None \<Rightarrow>
          if dir = root \<or> dir = ''.'' \<or> dir = ''/'' then None
          else resolve env root (Dir dir))"
  by pat_completeness auto
termination
  by (relation "measure (\<lambda>(env, root, dir). pathMeasure dir)") (auto simp: Dir_decreases)

declare resolve.simps [simp del]

text \<open>
  A cache is coherent when every entry it holds is the resolution of its directory. The
  empty cache of \<open>NewGenerator\<close> is coherent, and \<open>findMatcherForDir\<close> keeps it so.
\<close>

definition cacheCoherent :: "'m Env \<Rightarrow> 'm Generator \<Rightarrow> bool" where
  "cacheCoherent env g =
     (\<forall>dir r. matcherCache g dir = Some r \<longrightarrow> r = resolve env (srcDir g) dir)"

lemma findMatcherForDir_frame:
  "\<exists>cache. snd (findMatcherForDir env g dir) = g\<lparr>matcherCache := cache\<rparr>"
proof (induction env g dir rule: findMatcherForDir.induct)
  case (1 env g dir)
  show ?case
  proof (cases "matcherCache g dir")
    case (Some m)
    have "\<exists>cache. g = g\<lparr>matcherCache := cache\<rparr>"
      by (rule exI[where x = "matcherCache g"]) simp
    with Some show ?thesis
      by (simp add: findMatcherForDir.simps[of env g dir])
  next
    case miss: None
    show ?thesis
    proof (cases "localMatcher env dir")
      case (Some m)
      with miss show ?thesis by (simp add: findMatcherForDir.simps[of env g dir]) blast
    next
      case loc: None
      show ?thesis
      proof (cases "dir = srcDir g \<or> dir = ''.'' \<or> dir = ''/''")
        case True
        with miss loc show ?thesis by (simp add: findMatcherForDir.simps[of env g dir]) blast
      next
        case False
        obtain r g' where p: "findMatcherForDir env g (Dir dir) = (r, g')"
          by (cases "findMatcherForDir env g (Dir dir)")
        from 1[OF miss loc False] p obtain c where "g' = g\<lparr>matcherCache := c\<rparr>" by auto
        then have "g'\<lparr>matcherCache := (matcherCache g')(dir \<mapsto> r)\<rparr>
                    = g\<lparr>matcherCache := c(dir \<mapsto> r)\<rparr>"
          by simp
        with miss loc False p show ?thesis
          by (simp add: findMatcherForDir.simps[of env g dir]) blast
      qed
    qed
  qed
qed

lemma findMatcherForDir_resolve:
  assumes "cacheCoherent env g"
  shows "fst (findMatcherForDir env g dir) = resolve env (srcDir g) dir
       \<and> cacheCoherent env (snd (findMatcherForDir env g dir))
       \<and> matcherCache (snd (findMatcherForDir env g dir)) dir = Some (resolve env (srcDir g) dir)
       \<and> (\<forall>d. matcherCache g d \<noteq> None
              \<longrightarrow> matcherCache (snd (findMatcherForDir env g dir)) d = matcherCache g d)"
  using assms
proof (induction env g dir rule: findMatcherForDir.induct)
  case (1 env g dir)
  note coh = \<open>cacheCoherent env g\<close>
  show ?case
  proof (cases "matcherCache g dir")
    case (Some m)
    with coh have "m = resolve env (srcDir g) dir" by (simp add: cacheCoherent_def)
    with Some coh show ?thesis by (simp add: findMatcherForDir.simps[of env g dir])
  next
    case miss: None
    show ?thesis
    proof (cases "localMatcher env dir")
      case (Some m)
      then have r: "resolve env (srcDir g) dir = Some m"
        by (simp add: resolve.simps[of env "srcDir g" dir])
      from coh r have "cacheCoherent env (g\<lparr>matcherCache := (matcherCache g)(dir \<mapsto> Some m)\<rparr>)"
        by (simp add: cacheCoherent_def)
      with miss Some r show ?thesis
        by (auto simp add: findMatcherForDir.simps[of env g dir])
    next
      case loc: None
      show ?thesis
      proof (cases "dir = srcDir g \<or> dir = ''.'' \<or> dir = ''/''")
        case True
        with loc have r: "resolve env (srcDir g) dir = None"
          by (simp add: resolve.simps[of env "srcDir g" dir])
        from coh r have "cacheCoherent env (g\<lparr>matcherCache := (matcherCache g)(dir \<mapsto> None)\<rparr>)"
          by (simp add: cacheCoherent_def)
        with miss loc True r show ?thesis
          by (auto simp add: findMatcherForDir.simps[of env g dir])
      next
        case False
        with loc have r: "resolve env (srcDir g) dir = resolve env (srcDir g) (Dir dir)"
          by (simp add: resolve.simps[of env "srcDir g" dir])
        obtain p g' where p: "findMatcherForDir env g (Dir dir) = (p, g')"
          by (cases "findMatcherForDir env g (Dir dir)")
        from 1(1)[OF miss loc False coh] p
        have ih: "p = resolve env (srcDir g) (Dir dir)" "cacheCoherent env g'"
          "\<forall>d. matcherCache g d \<noteq> None \<longrightarrow> matcherCache g' d = matcherCache g d"
          by simp_all
        from findMatcherForDir_frame[of env g "Dir dir"] p
        obtain c where fr: "g' = g\<lparr>matcherCache := c\<rparr>" by auto
        then have sd: "srcDir g' = srcDir g" by simp
        from ih(1,2) r sd have "cacheCoherent env (g'\<lparr>matcherCache := (matcherCache g')(dir \<mapsto> p)\<rparr>)"
          by (simp add: cacheCoherent_def)
        with miss loc False p ih r show ?thesis
          by (auto simp add: findMatcherForDir.simps[of env g dir])
      qed
    qed
  qed
qed

text \<open>
  A path is ignored when the rule set resolved for its containing directory matches it, or
  the command-line rule set does.
\<close>

definition ignoredPath :: "'m Env \<Rightarrow> 'm Generator \<Rightarrow> string \<Rightarrow> bool" where
  "ignoredPath env g path =
     (matches env (resolve env (srcDir g) (Dir path)) path
      \<or> matches env (cliIgnoreMatcher g) path)"

text \<open>The \<open>FileData\<close> that \<open>processPath\<close> builds for a file it has read.\<close>

definition fileDataOf :: "'m Env \<Rightarrow> string \<Rightarrow> string \<Rightarrow> string \<Rightarrow> FileData" where
  "fileDataOf env root path content =
     (let relativePath = (case Rel env root path of Some r \<Rightarrow> r | None \<Rightarrow> path)
      in \<lparr>Path = relativePath, Content = content, Language = getFileLanguage relativePath\<rparr>)"

text \<open>
  \<open>processPath\<close> changes four things of the generator: the matcher cache, the log, the
  running total and the files of the builder. \<open>advance\<close> sets the four at once.
\<close>

definition advance ::
  "'m Generator \<Rightarrow> (string \<Rightarrow> 'm option option) \<Rightarrow> LogLine list \<Rightarrow> FileData list \<Rightarrow> 64 word
   \<Rightarrow> 'm Generator" where
  "advance g cache lg fs tot =
     g\<lparr>matcherCache := cache, logged := lg, currentTotalSize := tot,
       builder := (builder g)\<lparr>files := fs\<rparr>\<rparr>"

lemma advance_advance [simp]:
  "advance (advance g c l fs t) c' l' fs' t' = advance g c' l' fs' t'"
  by (simp add: advance_def)

lemma advance_self: "advance g (matcherCache g) (logged g) (files (builder g)) (currentTotalSize g) = g"
  by (simp add: advance_def)

lemma advance_sel [simp]:
  "matcherCache (advance g c l fs t) = c"
  "logged (advance g c l fs t) = l"
  "currentTotalSize (advance g c l fs t) = t"
  "files (builder (advance g c l fs t)) = fs"
  "srcDir (advance g c l fs t) = srcDir g"
  "cliIgnoreMatcher (advance g c l fs t) = cliIgnoreMatcher g"
  "maxSizeBytes (advance g c l fs t) = maxSizeBytes g"
  "totalSizeLimit (advance g c l fs t) = totalSizeLimit g"
  "kind (builder (advance g c l fs t)) = kind (builder g)"
  "projectName (builder (advance g c l fs t)) = projectName (builder g)"
  "projectSummary (builder (advance g c l fs t)) = projectSummary (builder g)"
  by (simp_all add: advance_def)

lemma ignoredPath_advance [simp]: "ignoredPath env (advance g c l fs t) path = ignoredPath env g path"
  by (simp add: ignoredPath_def)

lemma findMatcherForDir_advance:
  assumes "cacheCoherent env g"
  shows "\<exists>c. findMatcherForDir env g dir
               = (resolve env (srcDir g) dir, advance g c (logged g) (files (builder g)) (currentTotalSize g))
            \<and> cacheCoherent env (advance g c (logged g) (files (builder g)) (currentTotalSize g))
            \<and> c dir = Some (resolve env (srcDir g) dir)"
proof -
  obtain c where c: "snd (findMatcherForDir env g dir) = g\<lparr>matcherCache := c\<rparr>"
    using findMatcherForDir_frame by blast
  have eq: "g\<lparr>matcherCache := c\<rparr> = advance g c (logged g) (files (builder g)) (currentTotalSize g)"
    by (simp add: advance_def)
  from findMatcherForDir_resolve[OF assms, of dir] c eq
  have "findMatcherForDir env g dir
               = (resolve env (srcDir g) dir, advance g c (logged g) (files (builder g)) (currentTotalSize g))"
    "cacheCoherent env (advance g c (logged g) (files (builder g)) (currentTotalSize g))"
    "c dir = Some (resolve env (srcDir g) dir)"
    by (simp_all add: prod_eq_iff)
  then show ?thesis by blast
qed

text \<open>
  What a traversal of the tree comes to, in traversal order, as far as the result of the
  walk depends on it: the files that reach the cumulative check (each with its path and
  size), and the directories whose listing fails. Entries that are ignored, binary, without
  file info or over the per-file ceiling do not appear, and nothing inside a directory that
  is pruned or cannot be listed does.
\<close>

datatype Visit =
    Candidate string "64 word"
  | ListingFailed string

fun visits :: "'m Env \<Rightarrow> 'm Generator \<Rightarrow> string \<Rightarrow> DirEntry \<Rightarrow> Visit list"
and visitsIn :: "'m Env \<Rightarrow> 'm Generator \<Rightarrow> string \<Rightarrow> DirEntry list \<Rightarrow> Visit list"
where
  "visits env g path (File name info) =
     (if ignoredPath env g path \<or> Ext path \<in> set binaryExts then []
      else (case info of
              None \<Rightarrow> []
            | Some sz \<Rightarrow>
                if 0 <s maxSizeBytes g \<and> maxSizeBytes g <s sz then [] else [Candidate path sz]))"
| "visits env g path (Directory name readErr dirs) =
     (if name = ''.git'' \<or> ignoredPath env g path then []
      else (case readErr of
              Some e \<Rightarrow> [ListingFailed e]
            | None \<Rightarrow> visitsIn env g path dirs))"
| "visitsIn env g path [] = []"
| "visitsIn env g path (d # ds) =
     visits env g (Join path (Name d)) d @ visitsIn env g path ds"

text \<open>A tree in which every directory listing succeeds.\<close>

fun readable :: "DirEntry \<Rightarrow> bool"
and readableAll :: "DirEntry list \<Rightarrow> bool"
where
  "readable (File name info) = True"
| "readable (Directory name readErr dirs) = (readErr = None \<and> readableAll dirs)"
| "readableAll [] = True"
| "readableAll (d # ds) = (readable d \<and> readableAll ds)"

text \<open>
  What the walk does on them, to the files of the builder and the running total: it stops
  with an error at the first file that would take the total over the limit and at the
  first listing that fails, skips a file whose content cannot be read, and appends any
  other file and adds its size.
\<close>

fun admitFiles ::
  "'m Env \<Rightarrow> string \<Rightarrow> 64 word \<Rightarrow> Visit list \<Rightarrow> FileData list \<times> 64 word
   \<Rightarrow> error option \<times> FileData list \<times> 64 word" where
  "admitFiles env root limit [] s = (None, s)"
| "admitFiles env root limit (ListingFailed e # vs) s = (Some (OSError e), s)"
| "admitFiles env root limit (Candidate path sz # vs) (fs, tot) =
     (if 0 <s limit \<and> limit <s tot + sz then (Some (TotalSizeLimitExceeded limit), (fs, tot))
      else (case ReadFile env path of
              None \<Rightarrow> admitFiles env root limit vs (fs, tot)
            | Some content \<Rightarrow>
                admitFiles env root limit vs (fs @ [fileDataOf env root path content], tot + sz)))"

lemma admitFiles_append:
  "admitFiles env root limit (xs @ ys) s =
     (case admitFiles env root limit xs s of
        (Some e, s') \<Rightarrow> (Some e, s')
      | (None, s') \<Rightarrow> admitFiles env root limit ys s')"
  by (induction env root limit xs s rule: admitFiles.induct) (auto split: option.splits)

lemma admitFiles_not_SkipDir: "fst (admitFiles env root limit cs s) \<noteq> Some SkipDir"
  by (induction env root limit cs s rule: admitFiles.induct) (auto split: option.splits)

lemma visits_advance [simp]:
  "visits env (advance g c l fs t) path d = visits env g path d"
  "visitsIn env (advance g c l fs t) path ds = visitsIn env g path ds"
  by (induction env g path d and env g path ds rule: visits_visitsIn.induct)
     (simp_all split: option.splits)


text \<open>
  \<open>refines env g res cs\<close>: started in \<open>g\<close>, a part of the walk with the result \<open>res\<close> has
  done to the builder and the total what \<open>admitFiles\<close> does on the files \<open>cs\<close>, and has left
  the cache coherent.
\<close>

definition outcome ::
  "'m Env \<Rightarrow> 'm Generator \<Rightarrow> Visit list \<Rightarrow> error option \<times> FileData list \<times> 64 word" where
  "outcome env g cs =
     admitFiles env (srcDir g) (totalSizeLimit g) cs (files (builder g), currentTotalSize g)"

definition refines ::
  "'m Env \<Rightarrow> 'm Generator \<Rightarrow> error option \<times> 'm Generator \<Rightarrow> Visit list \<Rightarrow> bool" where
  "refines env g res cs =
     (\<exists>c l. res = (fst (outcome env g cs),
                     advance g c l (fst (snd (outcome env g cs))) (snd (snd (outcome env g cs))))
          \<and> cacheCoherent env (snd res))"

lemma outcome_advance [simp]:
  "outcome env (advance g c l fs t) cs = admitFiles env (srcDir g) (totalSizeLimit g) cs (fs, t)"
  by (simp add: outcome_def)

lemma refines_Nil:
  assumes "cacheCoherent env (advance g c l (files (builder g)) (currentTotalSize g))"
  shows "refines env g (None, advance g c l (files (builder g)) (currentTotalSize g)) []"
  using assms by (auto simp: refines_def outcome_def)

lemma refines_append:
  assumes a: "refines env g (r1, g1) xs"
      and b: "r1 = None \<Longrightarrow> refines env g1 res ys"
      and c: "r1 \<noteq> None \<Longrightarrow> res = (r1, g1)"
  shows "refines env g res (xs @ ys)"
proof -
  from a obtain c1 l1 where g1: "g1 = advance g c1 l1 (fst (snd (outcome env g xs))) (snd (snd (outcome env g xs)))"
    and r1: "r1 = fst (outcome env g xs)" and coh1: "cacheCoherent env g1"
    by (auto simp: refines_def)
  obtain fs1 t1 where o1: "outcome env g xs = (r1, fs1, t1)"
    using r1 by (cases "outcome env g xs") auto
  show ?thesis
  proof (cases r1)
    case None
    from b[OF None] obtain c2 l2 where
      res: "res = (fst (outcome env g1 ys),
                   advance g1 c2 l2 (fst (snd (outcome env g1 ys))) (snd (snd (outcome env g1 ys))))"
      and coh2: "cacheCoherent env (snd res)"
      by (auto simp: refines_def)
    have "outcome env g (xs @ ys) = outcome env g1 ys"
      using o1 None g1 by (simp add: outcome_def admitFiles_append)
    with res coh2 g1 show ?thesis by (auto simp: refines_def)
  next
    case (Some e)
    then have "outcome env g (xs @ ys) = outcome env g xs"
      using o1 by (simp add: outcome_def admitFiles_append)
    with c Some g1 r1 coh1 show ?thesis by (auto simp: refines_def)
  qed
qed

lemma refines_not_SkipDir: "refines env g (r, g') cs \<Longrightarrow> r \<noteq> Some SkipDir"
  using admitFiles_not_SkipDir[of env "srcDir g" "totalSizeLimit g" cs "(files (builder g), currentTotalSize g)"]
  by (auto simp: refines_def outcome_def)

lemma processFile_refines:
  assumes coh: "cacheCoherent env g"
  shows "refines env g (processFile env path (File name info) g)
           (if Ext path \<in> set binaryExts then []
            else (case info of
                    None \<Rightarrow> []
                  | Some sz \<Rightarrow> if 0 <s maxSizeBytes g \<and> maxSizeBytes g <s sz then [] else [Candidate path sz]))"
proof -
  have lg: "\<And>x. g\<lparr>logged := logged g @ [x]\<rparr>
              = advance g (matcherCache g) (logged g @ [x]) (files (builder g)) (currentTotalSize g)"
    by (simp add: advance_def)
  have ad: "\<And>sz f. g\<lparr>currentTotalSize := currentTotalSize g + sz, builder := AddFile (builder g) f\<rparr>
              = advance g (matcherCache g) (logged g) (files (builder g) @ [f]) (currentTotalSize g + sz)"
    by (simp add: advance_def AddFile_def)
  have g: "g = advance g (matcherCache g) (logged g) (files (builder g)) (currentTotalSize g)"
    by (simp add: advance_def)
  have cohs: "\<And>l fs t. cacheCoherent env (advance g (matcherCache g) l fs t)"
    using coh by (simp add: cacheCoherent_def)
  show ?thesis
  proof (cases "Ext path \<in> set binaryExts")
    case True
    then show ?thesis
      using cohs by (auto simp: processFile_def refines_def outcome_def lg)
  next
    case nb: False
    show ?thesis
    proof (cases info)
      case None
      with nb show ?thesis
        using cohs by (auto simp: processFile_def refines_def outcome_def lg)
    next
      case (Some sz)
      show ?thesis
      proof (cases "0 <s maxSizeBytes g \<and> maxSizeBytes g <s sz")
        case True
        with nb Some show ?thesis
          using cohs by (auto simp: processFile_def refines_def outcome_def lg)
      next
        case ok: False
        show ?thesis
        proof (cases "0 <s totalSizeLimit g \<and> totalSizeLimit g <s currentTotalSize g + sz")
          case True
          have "processFile env path (File name info) g
              = (Some (TotalSizeLimitExceeded (totalSizeLimit g)), g)"
            by (simp add: processFile_def nb Some ok True)
          with nb Some ok True coh show ?thesis
            by (auto simp: refines_def outcome_def intro: exI[where x = "matcherCache g"] exI[where x = "logged g"] g)
        next
          case bud: False
          show ?thesis
          proof (cases "ReadFile env path")
            case None
            have "processFile env path (File name info) g
               = (None, advance g (matcherCache g) (logged g @ [CouldNotReadFile path])
                           (files (builder g)) (currentTotalSize g))"
              by (simp add: processFile_def lg nb Some ok bud None)
            with nb Some ok bud None cohs show ?thesis
              by (auto simp: refines_def outcome_def)
          next
            case (Some content)
            have "processFile env path (File name info) g
               = (None, advance g (matcherCache g) (logged g)
                           (files (builder g) @ [fileDataOf env (srcDir g) path content])
                           (currentTotalSize g + sz))"
              by (simp add: processFile_def ad fileDataOf_def Let_def nb \<open>info = Some sz\<close> ok bud Some)
            with nb \<open>info = Some sz\<close> ok bud Some cohs show ?thesis
              by (auto simp: refines_def outcome_def)
          qed
        qed
      qed
    qed
  qed
qed

lemma processPath_unfold:
  "processPath env path (Some d) None g =
     (if IsDir d \<and> Name d = ''.git'' then (Some SkipDir, g)
      else (case findMatcherForDir env g (Dir path) of
              (gitMatcher, g1) \<Rightarrow>
                if matches env gitMatcher path \<or> matches env (cliIgnoreMatcher g1) path
                then (if IsDir d then (Some SkipDir, g1) else (None, g1))
                else if \<not> IsDir d then processFile env path d g1
                else (None, g1)))"
  by (simp add: processPath_def)

declare advance_self [simp]

lemma visits_File_ignored:
  "ignoredPath env g path \<Longrightarrow> visits env g path (File name info) = []"
  by simp

lemma visits_File_passed:
  "\<not> ignoredPath env g path \<Longrightarrow> maxSizeBytes g1 = maxSizeBytes g \<Longrightarrow>
   visits env g path (File name info) =
     (if Ext path \<in> set binaryExts then []
      else (case info of
              None \<Rightarrow> []
            | Some sz \<Rightarrow> if 0 <s maxSizeBytes g1 \<and> maxSizeBytes g1 <s sz then [] else [Candidate path sz]))"
  by (simp split: option.splits)

declare visits.simps(1) [simp del]

lemma processPath_File_refines:
  assumes coh: "cacheCoherent env g"
  shows "refines env g (processPath env path (Some (File name info)) None g)
           (visits env g path (File name info))"
proof -
  from findMatcherForDir_advance[OF coh, of "Dir path"] obtain c where
    fm: "findMatcherForDir env g (Dir path)
           = (resolve env (srcDir g) (Dir path),
              advance g c (logged g) (files (builder g)) (currentTotalSize g))"
    and coh1: "cacheCoherent env (advance g c (logged g) (files (builder g)) (currentTotalSize g))"
    by blast
  let ?g1 = "advance g c (logged g) (files (builder g)) (currentTotalSize g)"
  have nil: "refines env g (None, ?g1) []" using coh1 by (rule refines_Nil)
  show ?thesis
  proof (cases "ignoredPath env g path")
    case True
    then have "processPath env path (Some (File name info)) None g = (None, ?g1)"
      by (auto simp: processPath_unfold fm ignoredPath_def)
    with nil show ?thesis by (simp add: visits_File_ignored[OF True])
  next
    case False
    then have pp: "processPath env path (Some (File name info)) None g
                 = processFile env path (File name info) ?g1"
      by (auto simp: processPath_unfold fm ignoredPath_def)
    have "refines env ?g1 (processFile env path (File name info) ?g1)
            (visits env g path (File name info))"
      unfolding visits_File_passed[OF False, of ?g1, simplified]
      by (rule processFile_refines[OF coh1])
    with refines_append[OF nil, of "processFile env path (File name info) ?g1"
                                   "visits env g path (File name info)"] pp
    show ?thesis by simp
  qed
qed

lemma processPath_Directory:
  assumes coh: "cacheCoherent env g"
  shows "\<exists>c. processPath env path (Some (Directory name readErr dirs)) None g
              = (if name = ''.git'' \<or> ignoredPath env g path then Some SkipDir else None,
                 advance g c (logged g) (files (builder g)) (currentTotalSize g))
            \<and> cacheCoherent env (advance g c (logged g) (files (builder g)) (currentTotalSize g))"
proof (cases "name = ''.git''")
  case True
  have "g = advance g (matcherCache g) (logged g) (files (builder g)) (currentTotalSize g)"
    by (simp add: advance_self)
  with True coh show ?thesis
    by (auto simp: processPath_unfold intro!: exI[where x = "matcherCache g"])
next
  case False
  from findMatcherForDir_advance[OF coh, of "Dir path"] obtain c where
    fm: "findMatcherForDir env g (Dir path)
           = (resolve env (srcDir g) (Dir path),
              advance g c (logged g) (files (builder g)) (currentTotalSize g))"
    and coh1: "cacheCoherent env (advance g c (logged g) (files (builder g)) (currentTotalSize g))"
    by blast
  from False fm coh1 show ?thesis
    by (auto simp: processPath_unfold ignoredPath_def intro!: exI[where x = c])
qed

lemma processPath_error [simp]: "processPath env path d (Some e) g = (Some e, g)"
  by (simp add: processPath_def)

lemma skipped_simps [simp]:
  "skipped None = None"
  "skipped (Some SkipDir) = None"
  "e \<noteq> SkipDir \<Longrightarrow> skipped (Some e) = Some e"
  by (simp_all add: skipped_def)

lemma walk_refines:
  "cacheCoherent env g
     \<Longrightarrow> refines env g (walkDir (processPath env) path d g) (visits env g path d)"
  "cacheCoherent env g
     \<Longrightarrow> refines env g (walkDirs (processPath env) path ds g) (visitsIn env g path ds)"
proof (induction d and ds arbitrary: path g and path g rule: readable_readableAll.induct)
  case (1 name info)
  then show ?case by (simp add: processPath_File_refines)
next
  case (2 name readErr dirs)
  note coh = \<open>cacheCoherent env g\<close>
  from processPath_Directory[OF coh, of path name readErr dirs] obtain c where
    pp: "processPath env path (Some (Directory name readErr dirs)) None g
              = (if name = ''.git'' \<or> ignoredPath env g path then Some SkipDir else None,
                 advance g c (logged g) (files (builder g)) (currentTotalSize g))"
    and coh1: "cacheCoherent env (advance g c (logged g) (files (builder g)) (currentTotalSize g))"
    by blast
  let ?g1 = "advance g c (logged g) (files (builder g)) (currentTotalSize g)"
  have nil: "refines env g (None, ?g1) []" using coh1 by (rule refines_Nil)
  show ?case
  proof (cases "name = ''.git'' \<or> ignoredPath env g path")
    case True
    with pp nil show ?thesis by simp
  next
    case False
    show ?thesis
    proof (cases readErr)
      case (Some e)
      from False pp Some have w: "walkDir (processPath env) path (Directory name readErr dirs) g
              = (Some (OSError e), ?g1)"
        by simp
      have "refines env ?g1 (Some (OSError e), ?g1) [ListingFailed e]"
        using coh1 by (auto simp: refines_def)
      with refines_append[OF nil, of "(Some (OSError e), ?g1)" "[ListingFailed e]"] w False Some
      show ?thesis by simp
    next
      case None
      from False pp None have w: "walkDir (processPath env) path (Directory name readErr dirs) g
              = walkDirs (processPath env) path dirs ?g1"
        by simp
      from "2.IH"[OF coh1, of path]
      have "refines env ?g1 (walkDirs (processPath env) path dirs ?g1) (visitsIn env g path dirs)"
        by simp
      with refines_append[OF nil, of "walkDirs (processPath env) path dirs ?g1"
                                     "visitsIn env g path dirs"] w False None
      show ?thesis by simp
    qed
  qed
next
  case 3
  have "g = advance g (matcherCache g) (logged g) (files (builder g)) (currentTotalSize g)"
    by (simp add: advance_self)
  with refines_Nil[of env g "matcherCache g" "logged g"] 3 show ?case
    by simp
next
  case (4 d ds)
  note coh = \<open>cacheCoherent env g\<close>
  obtain r1 g1 where w1: "walkDir (processPath env) (Join path (Name d)) d g = (r1, g1)"
    by (cases "walkDir (processPath env) (Join path (Name d)) d g")
  from "4.IH"(1)[OF coh, of "Join path (Name d)"] w1
  have r1: "refines env g (r1, g1) (visits env g (Join path (Name d)) d)" by simp
  then have coh1: "cacheCoherent env g1" by (simp add: refines_def)
  from r1 have ns: "r1 \<noteq> Some SkipDir" by (rule refines_not_SkipDir)
  from r1 obtain c l fs t where g1: "g1 = advance g c l fs t" by (auto simp: refines_def)
  show ?case
  proof (cases r1)
    case None
    with w1 have w: "walkDirs (processPath env) path (d # ds) g = walkDirs (processPath env) path ds g1"
      by simp
    from "4.IH"(2)[OF coh1, of path] g1
    have "refines env g1 (walkDirs (processPath env) path ds g1) (visitsIn env g path ds)"
      by simp
    with refines_append[OF r1, of "walkDirs (processPath env) path ds g1" "visitsIn env g path ds"]
         None w
    show ?thesis by simp
  next
    case (Some e)
    with ns have "e \<noteq> SkipDir" by simp
    with Some w1 have w: "walkDirs (processPath env) path (d # ds) g = (r1, g1)"
      by simp
    with refines_append[OF r1, of "(r1, g1)" "visitsIn env g path ds"] Some
    show ?thesis by simp
  qed
qed

section \<open>The ignore resolver and the checks of one entry\<close>

lemma findMatcherForDir_hit:
  "matcherCache g dir = Some r \<Longrightarrow> findMatcherForDir env g dir = (r, g)"
  by (simp add: findMatcherForDir.simps[of env g dir])

lemma findMatcherForDir_frame':
  assumes "findMatcherForDir env g dir = (m, g1)"
  shows "\<exists>cache. g1 = g\<lparr>matcherCache := cache\<rparr>"
  using findMatcherForDir_frame[of env g dir] assms by simp

text \<open>
  With a coherent cache (as it is from the empty cache of \<open>NewGenerator\<close> on),
  \<open>findMatcherForDir\<close> returns the resolution of the directory: the matcher compiled from
  the rules file of that directory when the file is present and compiles; otherwise (the
  file absent, unreadable or rejected, which is no error) none when the directory is the
  string \<open>srcDir\<close>, \<open>.\<close> or \<open>/\<close>; otherwise what \<open>findMatcherForDir\<close> returns for the parent.
  The result is in the cache under the queried directory afterwards, the cache stays
  coherent, and a second query for the directory is answered from the cache alone.
\<close>

lemma findMatcherForDir_cached_resolution:
  assumes "cacheCoherent env g"
  shows "\<exists>g'. findMatcherForDir env g dir = (resolve env (srcDir g) dir, g')
            \<and> resolve env (srcDir g) dir =
                (case localMatcher env dir of
                   Some matcher \<Rightarrow> Some matcher
                 | None \<Rightarrow>
                     if dir = srcDir g \<or> dir = ''.'' \<or> dir = ''/'' then None
                     else fst (findMatcherForDir env g (Dir dir)))
            \<and> matcherCache g' dir = Some (resolve env (srcDir g) dir)
            \<and> cacheCoherent env g'
            \<and> (\<forall>env'. findMatcherForDir env' g' dir = (resolve env (srcDir g) dir, g'))"
proof -
  obtain r g' where f: "findMatcherForDir env g dir = (r, g')"
    by (cases "findMatcherForDir env g dir")
  from findMatcherForDir_resolve[OF assms, of dir] f
  have r: "r = resolve env (srcDir g) dir" and coh: "cacheCoherent env g'"
    and hit: "matcherCache g' dir = Some (resolve env (srcDir g) dir)"
    by simp_all
  from findMatcherForDir_resolve[OF assms, of "Dir dir"]
  have "fst (findMatcherForDir env g (Dir dir)) = resolve env (srcDir g) (Dir dir)" by simp
  then have unf: "resolve env (srcDir g) dir =
                (case localMatcher env dir of
                   Some matcher \<Rightarrow> Some matcher
                 | None \<Rightarrow>
                     if dir = srcDir g \<or> dir = ''.'' \<or> dir = ''/'' then None
                     else fst (findMatcherForDir env g (Dir dir)))"
    by (simp add: resolve.simps[of env "srcDir g" dir] split: option.splits)
  from hit have "\<forall>env'. findMatcherForDir env' g' dir = (resolve env (srcDir g) dir, g')"
    by (simp add: findMatcherForDir_hit)
  with f r coh hit unf show ?thesis by blast
qed



lemma walkDirs_continue:
  "fn (Join parent name) (Some (File name info)) None s = (None, s1)
   \<Longrightarrow> walkDirs fn parent (File name info # ds) s = walkDirs fn parent ds s1"
  by simp

text \<open>
  C6. With a per-file ceiling configured (\<open>maxSizeBytes > 0\<close>), a file that the ignore rules
  and the extension check let through is skipped when its size is strictly greater than
  the ceiling (the skip is logged, nothing is added, and the walk goes on with the next
  entry of the directory), while a file of exactly the ceiling size passes the check: with
  no cumulative limit and a readable content it is added to the builder.
\<close>

theorem per_file_ceiling:
  assumes fm: "findMatcherForDir env g (Dir path) = (gitMatcher, g1)"
      and ni: "\<not> matches env gitMatcher path" "\<not> matches env (cliIgnoreMatcher g) path"
      and nb: "Ext path \<notin> set binaryExts"
      and ceiling: "0 <s maxSizeBytes g"
  shows "(maxSizeBytes g <s sz \<longrightarrow>
            processPath env path (Some (File name (Some sz))) None g
              = (None, g1\<lparr>logged := logged g1 @ [SkippingLargeFile path sz]\<rparr>)
            \<and> builder g1 = builder g \<and> currentTotalSize g1 = currentTotalSize g
            \<and> (path = Join parent name \<longrightarrow>
                 walkDirs (processPath env) parent (File name (Some sz) # ds) g
                   = walkDirs (processPath env) parent ds
                       (g1\<lparr>logged := logged g1 @ [SkippingLargeFile path sz]\<rparr>)))
       \<and> (sz = maxSizeBytes g \<and> \<not> 0 <s totalSizeLimit g \<and> ReadFile env path = Some content \<longrightarrow>
            processPath env path (Some (File name (Some sz))) None g
              = (None, g1\<lparr>currentTotalSize := currentTotalSize g + sz,
                          builder := AddFile (builder g) (fileDataOf env (srcDir g) path content)\<rparr>))"
proof -
  from findMatcherForDir_frame'[OF fm] obtain c where g1: "g1 = g\<lparr>matcherCache := c\<rparr>" ..
  have pp: "processPath env path (Some (File name (Some sz))) None g
              = processFile env path (File name (Some sz)) g1"
    using ni by (simp add: processPath_unfold fm g1)
  have big: "maxSizeBytes g <s sz \<Longrightarrow>
               processFile env path (File name (Some sz)) g1
                 = (None, g1\<lparr>logged := logged g1 @ [SkippingLargeFile path sz]\<rparr>)"
    using nb ceiling by (simp add: processFile_def g1)
  have eq: "sz = maxSizeBytes g \<Longrightarrow> \<not> 0 <s totalSizeLimit g \<Longrightarrow> ReadFile env path = Some content \<Longrightarrow>
               processFile env path (File name (Some sz)) g1
                 = (None, g1\<lparr>currentTotalSize := currentTotalSize g + sz,
                          builder := AddFile (builder g) (fileDataOf env (srcDir g) path content)\<rparr>)"
    using nb by (simp add: processFile_def g1 fileDataOf_def Let_def)
  show ?thesis
    using pp big eq g1 by (auto simp: walkDirs_continue)
qed

text \<open>
  C8. For every file entry, the ignore rules are checked first: an ignored file is skipped
  silently whatever its extension and size are (no line is logged for it). The extension
  is checked next: a file with a binary or archive extension that is not ignored is skipped
  with the line \<open>SkippingBinary\<close> whatever its size, the limits and the running total are,
  so it never comes to the size checks, never ends the walk and never changes the
  running total.
\<close>

theorem ignore_then_binary_then_size:
  assumes fm: "findMatcherForDir env g (Dir path) = (gitMatcher, g1)"
  shows "(matches env gitMatcher path \<or> matches env (cliIgnoreMatcher g) path \<longrightarrow>
            processPath env path (Some (File name info)) None g = (None, g1))
       \<and> (\<not> matches env gitMatcher path \<and> \<not> matches env (cliIgnoreMatcher g) path
            \<and> Ext path \<in> set binaryExts \<longrightarrow>
            processPath env path (Some (File name info)) None g
              = (None, g1\<lparr>logged := logged g1 @ [SkippingBinary path]\<rparr>))
       \<and> currentTotalSize g1 = currentTotalSize g \<and> builder g1 = builder g
       \<and> logged g1 = logged g"
proof -
  from findMatcherForDir_frame'[OF fm] obtain c where g1: "g1 = g\<lparr>matcherCache := c\<rparr>" ..
  show ?thesis
    by (auto simp: processPath_unfold fm g1 processFile_def)
qed

lemma processFile_total:
  assumes "processFile env path (File name info) g = (r, g')"
  shows "(currentTotalSize g' = currentTotalSize g \<and> files (builder g') = files (builder g))
       \<or> (\<exists>sz content. info = Some sz \<and> ReadFile env path = Some content \<and> r = None
             \<and> currentTotalSize g' = currentTotalSize g + sz
             \<and> files (builder g') = files (builder g) @ [fileDataOf env (srcDir g) path content])"
  using assms
  by (auto simp: processFile_def Let_def AddFile_def fileDataOf_def split: if_splits option.splits)

text \<open>
  C9. A file that passes the ignore rules, the extension check and both size checks but
  whose content cannot be read is skipped: \<open>processPath\<close> returns no error, the walk goes
  on with the next entry, and the running total and the builder are unchanged. In every
  call of \<open>processPath\<close> the running total either stays as it is, together with the files
  of the builder, or grows by the size of a file whose content was read, and that file is
  appended to the builder.
\<close>

theorem total_counts_delivered_files_only:
  assumes fm: "findMatcherForDir env g (Dir path) = (gitMatcher, g1)"
  shows "(\<not> matches env gitMatcher path \<and> \<not> matches env (cliIgnoreMatcher g) path
          \<and> Ext path \<notin> set binaryExts
          \<and> \<not> (0 <s maxSizeBytes g \<and> maxSizeBytes g <s sz)
          \<and> \<not> (0 <s totalSizeLimit g \<and> totalSizeLimit g <s currentTotalSize g + sz)
          \<and> ReadFile env path = None \<longrightarrow>
            processPath env path (Some (File name (Some sz))) None g
              = (None, g1\<lparr>logged := logged g1 @ [CouldNotReadFile path]\<rparr>)
            \<and> currentTotalSize g1 = currentTotalSize g \<and> builder g1 = builder g
            \<and> (path = Join parent name \<longrightarrow>
                 walkDirs (processPath env) parent (File name (Some sz) # ds) g
                   = walkDirs (processPath env) parent ds
                       (g1\<lparr>logged := logged g1 @ [CouldNotReadFile path]\<rparr>)))
       \<and> (\<forall>entry err r g'. processPath env path entry err g = (r, g') \<longrightarrow>
            (currentTotalSize g' = currentTotalSize g \<and> files (builder g') = files (builder g))
            \<or> (\<exists>fname fsz content.
                  entry = Some (File fname (Some fsz)) \<and> err = None \<and> r = None
                  \<and> ReadFile env path = Some content
                  \<and> currentTotalSize g' = currentTotalSize g + fsz
                  \<and> files (builder g')
                      = files (builder g) @ [fileDataOf env (srcDir g) path content]))"
proof -
  from findMatcherForDir_frame'[OF fm] obtain c where g1: "g1 = g\<lparr>matcherCache := c\<rparr>" ..
  have a: "\<not> matches env gitMatcher path \<Longrightarrow> \<not> matches env (cliIgnoreMatcher g) path
          \<Longrightarrow> Ext path \<notin> set binaryExts
          \<Longrightarrow> \<not> (0 <s maxSizeBytes g \<and> maxSizeBytes g <s sz)
          \<Longrightarrow> \<not> (0 <s totalSizeLimit g \<and> totalSizeLimit g <s currentTotalSize g + sz)
          \<Longrightarrow> ReadFile env path = None \<Longrightarrow>
            processPath env path (Some (File name (Some sz))) None g
              = (None, g1\<lparr>logged := logged g1 @ [CouldNotReadFile path]\<rparr>)"
    by (auto simp: processPath_unfold fm g1 processFile_def)
  have b: "(currentTotalSize g' = currentTotalSize g \<and> files (builder g') = files (builder g))
            \<or> (\<exists>fname fsz content.
                  entry = Some (File fname (Some fsz)) \<and> err = None \<and> r = None
                  \<and> ReadFile env path = Some content
                  \<and> currentTotalSize g' = currentTotalSize g + fsz
                  \<and> files (builder g')
                      = files (builder g) @ [fileDataOf env (srcDir g) path content])"
    if pp: "processPath env path entry err g = (r, g')" for entry err r g'
  proof (cases err)
    case (Some e)
    with pp show ?thesis by simp
  next
    case None
    show ?thesis
    proof (cases entry)
      case n: None
      with None pp show ?thesis by (simp add: processPath_def)
    next
      case (Some d)
      show ?thesis
      proof (cases d)
        case (Directory dname readErr dirs)
        with None Some pp g1 fm show ?thesis
          by (auto simp: processPath_unfold split: if_splits)
      next
        case (File fname info)
        show ?thesis
        proof (cases "matches env gitMatcher path \<or> matches env (cliIgnoreMatcher g) path")
          case True
          with None Some File pp g1 fm show ?thesis
            by (auto simp: processPath_unfold split: if_splits)
        next
          case False
          with None Some File pp g1 fm
          have "processFile env path (File fname info) g1 = (r, g')"
            by (auto simp: processPath_unfold split: if_splits)
          from processFile_total[OF this] g1 None Some File show ?thesis by auto
        qed
      qed
    qed
  qed
  from a b g1 show ?thesis by (auto simp: walkDirs_continue)
qed

section \<open>The walk over a whole tree\<close>

text \<open>
  The files of a list that the walk delivers when no limit stops it are those whose
  content can be read; \<open>sizeSum\<close> adds sizes up as integers.
\<close>

definition contentOf :: "'m Env \<Rightarrow> string \<Rightarrow> string" where
  "contentOf env path = (case ReadFile env path of Some content \<Rightarrow> content | None \<Rightarrow> [])"

definition accepted :: "'m Env \<Rightarrow> (string \<times> 64 word) list \<Rightarrow> (string \<times> 64 word) list" where
  "accepted env cs = filter (\<lambda>(path, sz). ReadFile env path \<noteq> None) cs"

definition sizeSum :: "(string \<times> 64 word) list \<Rightarrow> int" where
  "sizeSum cs = sum_list (map (\<lambda>(path, sz). sint sz) cs)"

definition delivered :: "'m Env \<Rightarrow> string \<Rightarrow> (string \<times> 64 word) list \<Rightarrow> FileData list" where
  "delivered env root cs =
     map (\<lambda>(path, sz). fileDataOf env root path (contentOf env path)) (accepted env cs)"

definition candidateOf :: "string \<times> 64 word \<Rightarrow> Visit" where
  "candidateOf c = Candidate (fst c) (snd c)"



lemma accepted_Cons:
  "accepted env ((q, s) # cs) = (if ReadFile env q = None then accepted env cs else (q, s) # accepted env cs)"
  by (simp add: accepted_def)

lemma sizeSum_Cons [simp]: "sizeSum ((q, s) # cs) = sint s + sizeSum cs"
  by (simp add: sizeSum_def)

lemma sizeSum_Nil [simp]: "sizeSum [] = 0"
  by (simp add: sizeSum_def)



lemma Walk_walkDir:
  "Walk env (Inr tree) g = (case walkDir (processPath env) (srcDir g) tree g of (err, g') \<Rightarrow> (skipped err, g'))"
  by (simp add: Walk_def WalkDir_def)



text \<open>
  The entries under the root that are not directories, not inside a directory named
  \<open>.git\<close>, and whose extension is not a binary or archive one: their paths, in traversal
  order, each with what \<open>Info\<close> gives for it.
\<close>

fun underRoot :: "string \<Rightarrow> DirEntry \<Rightarrow> (string \<times> 64 word option) list"
and underRootIn :: "string \<Rightarrow> DirEntry list \<Rightarrow> (string \<times> 64 word option) list"
where
  "underRoot path (File name info) =
     (if Ext path \<in> set binaryExts then [] else [(path, info)])"
| "underRoot path (Directory name readErr dirs) =
     (if name = ''.git'' then [] else underRootIn path dirs)"
| "underRootIn path [] = []"
| "underRootIn path (d # ds) = underRoot (Join path (Name d)) d @ underRootIn path ds"

fun withSizes :: "(string \<times> 64 word option) list \<Rightarrow> (string \<times> 64 word) list" where
  "withSizes [] = []"
| "withSizes ((path, None) # es) = withSizes es"
| "withSizes ((path, Some sz) # es) = (path, sz) # withSizes es"

definition canBeRead :: "'m Env \<Rightarrow> string \<times> 64 word option \<Rightarrow> bool" where
  "canBeRead env e = (snd e \<noteq> None \<and> ReadFile env (fst e) \<noteq> None)"

text \<open>
  The paths of the entries of the tree, the root first, without what is inside a directory
  named \<open>.git\<close> and without such a directory itself: the paths that the ignore rules are
  asked about when no rule excludes anything.
\<close>

fun entryPaths :: "string \<Rightarrow> DirEntry \<Rightarrow> string list"
and entryPathsIn :: "string \<Rightarrow> DirEntry list \<Rightarrow> string list"
where
  "entryPaths path (File name info) = [path]"
| "entryPaths path (Directory name readErr dirs) =
     (if name = ''.git'' then [] else path # entryPathsIn path dirs)"
| "entryPathsIn path [] = []"
| "entryPathsIn path (d # ds) = entryPaths (Join path (Name d)) d @ entryPathsIn path ds"

text \<open>
  The directories in which the resolver can look for a rules file when it is asked about
  \<open>dir\<close>: \<open>dir\<close> itself and the directories above it, up to \<open>.\<close> or \<open>/\<close>.
\<close>

function upward :: "string \<Rightarrow> string list" where
  "upward dir = dir # (if dir = ''.'' \<or> dir = ''/'' then [] else upward (Dir dir))"
  by pat_completeness auto
termination
  by (relation "measure pathMeasure") (auto simp: Dir_decreases)

declare upward.simps [simp del]

definition noRulesAbove :: "'m Env \<Rightarrow> string \<Rightarrow> bool" where
  "noRulesAbove env dir = (\<forall>d \<in> set (upward dir). \<not> Stat env (Join d ''.gitignore''))"

lemma withSizes_append [simp]: "withSizes (xs @ ys) = withSizes xs @ withSizes ys"
  by (induction xs rule: withSizes.induct) auto

lemma resolve_no_rules:
  "noRulesAbove env dir \<Longrightarrow> resolve env root dir = None"
proof (induction env root dir rule: resolve.induct)
  case (1 env root dir)
  have "dir \<in> set (upward dir)" by (simp add: upward.simps[of dir])
  with 1(2) have loc: "localMatcher env dir = None"
    by (simp add: localMatcher_def noRulesAbove_def)
  show ?case
  proof (cases "dir = root \<or> dir = ''.'' \<or> dir = ''/''")
    case True
    then show ?thesis using loc by (simp add: resolve.simps[of env root dir])
  next
    case False
    then have "set (upward (Dir dir)) \<subseteq> set (upward dir)"
      by (auto simp: upward.simps[of dir])
    with 1(2) have "noRulesAbove env (Dir dir)" by (auto simp: noRulesAbove_def)
    from 1(1)[OF loc False this] show ?thesis
      using loc False by (simp add: resolve.simps[of env root dir])
  qed
qed

lemma visits_no_rules:
  assumes "cliIgnoreMatcher g = None" and "\<not> 0 <s maxSizeBytes g"
  shows "\<forall>p \<in> set (entryPaths path d). noRulesAbove env (Dir p) \<Longrightarrow> readable d
           \<Longrightarrow> visits env g path d = map candidateOf (withSizes (underRoot path d))"
    and "\<forall>p \<in> set (entryPathsIn path ds). noRulesAbove env (Dir p) \<Longrightarrow> readableAll ds
           \<Longrightarrow> visitsIn env g path ds = map candidateOf (withSizes (underRootIn path ds))"
proof (induction path d and path ds rule: underRoot_underRootIn.induct)
  case (1 path name info)
  then have "\<not> ignoredPath env g path"
    using assms by (simp add: ignoredPath_def resolve_no_rules matches_def)
  then show ?case using assms(2)
    by (cases info) (simp_all add: visits.simps(1) candidateOf_def)
next
  case (2 path name readErr dirs)
  show ?case
  proof (cases "name = ''.git''")
    case True
    then show ?thesis by simp
  next
    case False
    with 2(2) have "\<not> ignoredPath env g path"
      using assms by (simp add: ignoredPath_def resolve_no_rules matches_def)
    with 2 False show ?thesis by simp
  qed
next
  case (3 path)
  show ?case by simp
next
  case (4 path d ds)
  then show ?case by simp
qed

lemma admitFiles_unlimited:
  "\<not> 0 <s limit \<Longrightarrow>
   \<exists>t'. admitFiles env root limit (map candidateOf cs) (fs, t)
          = (None, fs @ delivered env root cs, t')"
proof (induction cs arbitrary: fs t)
  case Nil
  then show ?case by (simp add: delivered_def accepted_def)
next
  case (Cons x cs)
  obtain q s where x: "x = (q, s)" by (cases x)
  show ?case
  proof (cases "ReadFile env q")
    case None
    from Cons.IH[OF Cons.prems, of fs t] show ?thesis
      using None x Cons.prems by (simp add: delivered_def accepted_Cons candidateOf_def)
  next
    case (Some content)
    from Cons.IH[OF Cons.prems, of "fs @ [fileDataOf env root q content]" "t + s"] show ?thesis
      using Some x Cons.prems
      by (auto simp add: delivered_def accepted_Cons contentOf_def candidateOf_def)
  qed
qed

lemma delivered_withSizes:
  "delivered env root (withSizes es)
     = map (\<lambda>(path, info). fileDataOf env root path (contentOf env path))
           (filter (canBeRead env) es)"
  by (induction es rule: withSizes.induct)
     (auto simp: delivered_def accepted_def canBeRead_def)

text \<open>
  C3, as the code has it. The walk starts from a generator whose cache of resolved
  directories agrees with the file system, as the empty cache of a new generator does.
  When no ignore rule set is configured, no rules file exists in the directory of any entry
  of the tree (the root included, whose directory is the parent of the root) nor in any
  directory above it up to \<open>.\<close> or \<open>/\<close>, both ceilings are 0 and every directory listing
  succeeds, the walk returns no error and the files delivered to the builder are exactly
  the entries under the root that are not directories, not inside a directory named
  \<open>.git\<close>, whose extension is not in the binary set, and whose file info and content can be
  read; they are delivered in traversal order.
\<close>

theorem walk_without_rules_and_limits:
  assumes coh: "cacheCoherent env g" and rd: "readable tree"
      and cli: "cliIgnoreMatcher g = None"
      and norules: "\<forall>p \<in> set (entryPaths (srcDir g) tree). noRulesAbove env (Dir p)"
      and nomax: "maxSizeBytes g = 0" and nolimit: "totalSizeLimit g = 0"
  shows "\<exists>g'. Walk env (Inr tree) g = (None, g')
            \<and> files (builder g')
                = files (builder g)
                  @ map (\<lambda>(path, info). fileDataOf env (srcDir g) path (contentOf env path))
                        (filter (canBeRead env) (underRoot (srcDir g) tree))"
proof -
  have m: "\<not> 0 <s maxSizeBytes g" and l: "\<not> 0 <s totalSizeLimit g"
    using nomax nolimit by (simp_all add: word_sless_alt)
  have vs: "visits env g (srcDir g) tree
              = map candidateOf (withSizes (underRoot (srcDir g) tree))"
    by (rule visits_no_rules(1)[OF cli m norules rd])
  from admitFiles_unlimited[OF l, of env "srcDir g" "withSizes (underRoot (srcDir g) tree)"
         "files (builder g)" "currentTotalSize g"]
  obtain t' where o: "outcome env g (map candidateOf (withSizes (underRoot (srcDir g) tree)))
        = (None, files (builder g) @ delivered env (srcDir g) (withSizes (underRoot (srcDir g) tree)), t')"
    by (auto simp: outcome_def)
  from walk_refines(1)[OF coh, of "srcDir g" tree] vs o
  obtain c l where w: "walkDir (processPath env) (srcDir g) tree g
        = (None, advance g c l (files (builder g)
                    @ delivered env (srcDir g) (withSizes (underRoot (srcDir g) tree))) t')"
    by (auto simp: refines_def)
  show ?thesis
    by (intro exI[where x = "advance g c l (files (builder g)
                    @ delivered env (srcDir g) (withSizes (underRoot (srcDir g) tree))) t'"])
       (simp add: Walk_walkDir w delivered_withSizes)
qed

section \<open>A concrete tree\<close>

text \<open>
  A small project, used to run the theorems on: a root \<open>proj\<close> with a rules file that
  excludes \<open>secret.txt\<close>, a source file, an image, the excluded file, and a directory
  \<open>docs\<close> with one readable and one unreadable file. In this environment a matcher is the
  list of its pattern lines and matches a path whose last element is one of them, and a
  rendered document is the name of the template followed by the paths of the files.
\<close>

definition exampleRead :: "string \<Rightarrow> string option" where
  "exampleRead p =
     (if p = ''proj/.gitignore'' then Some ''secret.txt''
      else if p = ''proj/a.go'' then Some ''package a''
      else if p = ''proj/secret.txt'' then Some ''hunter2''
      else if p = ''proj/docs/guide.md'' then Some ''# Guide''
      else None)"

definition exampleEnv :: "string list Env" where
  "exampleEnv =
     \<lparr>Stat = (\<lambda>p. p = ''proj/.gitignore''),
      ReadFile = exampleRead,
      CompileIgnoreFile =
        (\<lambda>p. case exampleRead p of None \<Rightarrow> None | Some c \<Rightarrow> Some (Split c (CHR 0x0A))),
      CompileIgnoreLines = (\<lambda>ls. ls),
      MatchesPath = (\<lambda>m p. Base p \<in> set m),
      Rel = (\<lambda>base p. if take (length base + 1) p = base @ ''/''
                        then Some (drop (length base + 1) p) else None),
      ExecuteTemplate =
        (\<lambda>t input.
           Inr ((case t of Review \<Rightarrow> ''review:'' | Default \<Rightarrow> ''default:'' | LLM \<Rightarrow> ''llm:'')
                @ (case input of
                     TemplateData name summary fs \<Rightarrow> concat (map (\<lambda>f. Path f @ '';'') fs)
                   | ReviewTemplateData name summary fs \<Rightarrow>
                       concat (map (\<lambda>f. rfPath f @ '';'') fs)))),
      WriteOutput = (\<lambda>doc. None)\<rparr>"

definition exampleTree :: DirEntry where
  "exampleTree =
     Directory ''proj'' None
       [File ''.gitignore'' (Some 10), File ''a.go'' (Some 10), File ''b.png'' (Some 100),
        File ''secret.txt'' (Some 20),
        Directory ''docs'' None [File ''guide.md'' (Some 30), File ''lost.md'' (Some 5)]]"

definition exampleGenerator :: "64 word \<Rightarrow> 64 word \<Rightarrow> string list Generator" where
  "exampleGenerator maxSize limit =
     NewGenerator [WithBuilder NewDefaultBuilder, WithSrcDir ''proj'',
                   WithCliIgnore exampleEnv ''vendor,dist'',
                   (\<lambda>g. g\<lparr>maxSizeBytes := maxSize\<rparr>), (\<lambda>g. g\<lparr>totalSizeLimit := limit\<rparr>)]"

lemma cacheCoherent_empty: "matcherCache g = (\<lambda>dir. None) \<Longrightarrow> cacheCoherent env g"
  by (simp add: cacheCoherent_def)




lemma exampleGenerator_sel [simp]:
  "srcDir (exampleGenerator m l) = ''proj''"
  "maxSizeBytes (exampleGenerator m l) = m"
  "totalSizeLimit (exampleGenerator m l) = l"
  "currentTotalSize (exampleGenerator m l) = 0"
  "files (builder (exampleGenerator m l)) = []"
  "logged (exampleGenerator m l) = []"
  "cliIgnoreMatcher (exampleGenerator m l) = Some [''vendor'', ''dist'']"
  by (simp_all add: exampleGenerator_def NewGenerator_def zeroGenerator_def WithBuilder_def
        WithSrcDir_def WithCliIgnore_def NewDefaultBuilder_def exampleEnv_def)

theorem per_file_ceiling_witness:
  "0 <s maxSizeBytes (exampleGenerator 10 0)
   \<and> maxSizeBytes (exampleGenerator 10 0) <s 11
   \<and> fst (processPath exampleEnv ''proj/a.go'' (Some (File ''a.go'' (Some 11))) None
            (exampleGenerator 10 0)) = None
   \<and> files (builder (snd (processPath exampleEnv ''proj/a.go'' (Some (File ''a.go'' (Some 11)))
                               None (exampleGenerator 10 0)))) = []
   \<and> files (builder (snd (processPath exampleEnv ''proj/a.go'' (Some (File ''a.go'' (Some 10)))
                               None (exampleGenerator 10 0))))
       = [\<lparr>Path = ''a.go'', Content = ''package a'', Language = ''go''\<rparr>]"
proof -
  let ?g = "exampleGenerator 10 0"
  let ?f = "findMatcherForDir exampleEnv ?g (Dir ''proj/a.go'')"
  have fm: "?f = (fst ?f, snd ?f)" by simp
  have ni: "\<not> matches exampleEnv (fst ?f) ''proj/a.go''"
           "\<not> matches exampleEnv (cliIgnoreMatcher ?g) ''proj/a.go''"
    by code_simp+
  have nb: "Ext ''proj/a.go'' \<notin> set binaryExts" by code_simp
  have c: "0 <s maxSizeBytes ?g" by (simp add: word_sless_alt)
  have big: "maxSizeBytes ?g <s 11" by (simp add: word_sless_alt)
  have rd: "ReadFile exampleEnv ''proj/a.go'' = Some ''package a''" by code_simp
  have fd: "fileDataOf exampleEnv ''proj'' ''proj/a.go'' ''package a''
              = \<lparr>Path = ''a.go'', Content = ''package a'', Language = ''go''\<rparr>"
    by code_simp
  note t = per_file_ceiling[OF fm ni nb c, where name = "''a.go''" and parent = "''proj''" and ds = "[]"]
  from t[of 11] big
  have a: "fst (processPath exampleEnv ''proj/a.go'' (Some (File ''a.go'' (Some 11))) None ?g) = None"
          "files (builder (snd (processPath exampleEnv ''proj/a.go'' (Some (File ''a.go'' (Some 11)))
                               None ?g))) = []"
    by simp_all
  from t[of 10 "''package a''"] rd fd
  have b: "files (builder (snd (processPath exampleEnv ''proj/a.go'' (Some (File ''a.go'' (Some 10)))
                               None ?g)))
       = [\<lparr>Path = ''a.go'', Content = ''package a'', Language = ''go''\<rparr>]"
    by (simp add: word_sless_alt AddFile_def)
  from c big a b show ?thesis by simp
qed

theorem ignore_then_binary_then_size_witness:
  "Ext ''proj/b.png'' \<in> set binaryExts
   \<and> processPath exampleEnv ''proj/b.png'' (Some (File ''b.png'' (Some 100))) None
         (exampleGenerator 10 50)
       = (None, (snd (findMatcherForDir exampleEnv (exampleGenerator 10 50) ''proj''))
                  \<lparr>logged := [SkippingBinary ''proj/b.png'']\<rparr>)
   \<and> matches exampleEnv (fst (findMatcherForDir exampleEnv (exampleGenerator 10 50) ''proj''))
         ''proj/secret.txt''
   \<and> processPath exampleEnv ''proj/secret.txt'' (Some (File ''secret.txt'' (Some 100))) None
         (exampleGenerator 10 50)
       = (None, snd (findMatcherForDir exampleEnv (exampleGenerator 10 50) ''proj''))
   \<and> currentTotalSize (snd (findMatcherForDir exampleEnv (exampleGenerator 10 50) ''proj'')) = 0"
proof -
  let ?g = "exampleGenerator 10 50"
  have d: "Dir ''proj/b.png'' = ''proj''" "Dir ''proj/secret.txt'' = ''proj''" by code_simp+
  let ?f = "findMatcherForDir exampleEnv ?g ''proj''"
  have fm: "findMatcherForDir exampleEnv ?g (Dir ''proj/b.png'') = (fst ?f, snd ?f)"
           "findMatcherForDir exampleEnv ?g (Dir ''proj/secret.txt'') = (fst ?f, snd ?f)"
    by (simp_all add: d)
  have ni: "\<not> matches exampleEnv (fst ?f) ''proj/b.png''"
           "\<not> matches exampleEnv (cliIgnoreMatcher ?g) ''proj/b.png''"
    by code_simp+
  have m: "matches exampleEnv (fst ?f) ''proj/secret.txt''" by code_simp
  have bin: "Ext ''proj/b.png'' \<in> set binaryExts" by code_simp
  from ignore_then_binary_then_size[OF fm(1), of "''b.png''" "Some 100"] ni bin
  have a: "processPath exampleEnv ''proj/b.png'' (Some (File ''b.png'' (Some 100))) None ?g
       = (None, (snd ?f)\<lparr>logged := [SkippingBinary ''proj/b.png'']\<rparr>)"
       "currentTotalSize (snd ?f) = 0"
    by simp_all
  from ignore_then_binary_then_size[OF fm(2), of "''secret.txt''" "Some 100"] m
  have b: "processPath exampleEnv ''proj/secret.txt'' (Some (File ''secret.txt'' (Some 100))) None ?g
       = (None, snd ?f)"
    by simp
  from bin a m b show ?thesis by simp
qed

theorem total_counts_delivered_files_only_witness:
  "ReadFile exampleEnv ''proj/docs/lost.md'' = None
   \<and> fst (processPath exampleEnv ''proj/docs/lost.md'' (Some (File ''lost.md'' (Some 5))) None
            (exampleGenerator 10 50)) = None
   \<and> currentTotalSize (snd (processPath exampleEnv ''proj/docs/lost.md''
                               (Some (File ''lost.md'' (Some 5))) None (exampleGenerator 10 50))) = 0
   \<and> files (builder (snd (processPath exampleEnv ''proj/docs/lost.md''
                               (Some (File ''lost.md'' (Some 5))) None (exampleGenerator 10 50)))) = []
   \<and> currentTotalSize (snd (processPath exampleEnv ''proj/a.go''
                               (Some (File ''a.go'' (Some 10))) None (exampleGenerator 10 50))) = 10"
proof -
  let ?g = "exampleGenerator 10 50"
  let ?p = "''proj/docs/lost.md''"
  let ?f = "findMatcherForDir exampleEnv ?g (Dir ?p)"
  have fm: "?f = (fst ?f, snd ?f)" by simp
  have ni: "\<not> matches exampleEnv (fst ?f) ?p" "\<not> matches exampleEnv (cliIgnoreMatcher ?g) ?p"
    by code_simp+
  have nb: "Ext ?p \<notin> set binaryExts" by code_simp
  have sz: "\<not> (0 <s maxSizeBytes ?g \<and> maxSizeBytes ?g <s 5)"
           "\<not> (0 <s totalSizeLimit ?g \<and> totalSizeLimit ?g <s currentTotalSize ?g + 5)"
    by (simp_all add: word_sless_alt)
  have rd: "ReadFile exampleEnv ?p = None" by code_simp
  from total_counts_delivered_files_only[OF fm, of 5 "''lost.md''" "''proj/docs''" "[]"] ni nb sz rd
  have a: "fst (processPath exampleEnv ?p (Some (File ''lost.md'' (Some 5))) None ?g) = None"
    "currentTotalSize (snd (processPath exampleEnv ?p (Some (File ''lost.md'' (Some 5))) None ?g)) = 0"
    "files (builder (snd (processPath exampleEnv ?p (Some (File ''lost.md'' (Some 5))) None ?g))) = []"
    by simp_all
  have b: "currentTotalSize (snd (processPath exampleEnv ''proj/a.go''
                               (Some (File ''a.go'' (Some 10))) None ?g)) = 10"
    by code_simp
  from rd a b show ?thesis by simp
qed

section \<open>File systems without a rules file in the project\<close>

text \<open>
  A file system given by the paths that exist and the contents that can be read. A rules
  file compiles when it can be read; a matcher is the list of its pattern lines and
  matches a path whose last element is one of them; \<open>Rel\<close> cuts the cleaned base off.
\<close>

definition fsEnv :: "string list \<Rightarrow> (string \<Rightarrow> string option) \<Rightarrow> string list Env" where
  "fsEnv paths read =
     \<lparr>Stat = (\<lambda>p. p \<in> set paths),
      ReadFile = read,
      CompileIgnoreFile =
        (\<lambda>p. case read p of None \<Rightarrow> None | Some c \<Rightarrow> Some (Split c (CHR 0x0A))),
      CompileIgnoreLines = (\<lambda>ls. ls),
      MatchesPath = (\<lambda>m p. Base p \<in> set m),
      Rel = (\<lambda>base p. if p = Clean base then Some ''.''
                        else if take (length (Clean base) + 1) p = Clean base @ ''/''
                        then Some (drop (length (Clean base) + 1) p) else None),
      ExecuteTemplate =
        (\<lambda>t input.
           Inr ((case t of Review \<Rightarrow> ''review:'' | Default \<Rightarrow> ''default:'' | LLM \<Rightarrow> ''llm:'')
                @ (case input of
                     TemplateData name summary fs \<Rightarrow> concat (map (\<lambda>f. Path f @ '';'') fs)
                   | ReviewTemplateData name summary fs \<Rightarrow>
                       concat (map (\<lambda>f. rfPath f @ '';'') fs)))),
      WriteOutput = (\<lambda>doc. None)\<rparr>"

text \<open>
  A project \<open>proj\<close> without a rules file: a source file, an image, and a directory \<open>docs\<close>
  with a readable file and a file that exists but cannot be read.
\<close>

definition plainPaths :: "string list" where
  "plainPaths =
     [''proj'', ''proj/a.go'', ''proj/b.png'', ''proj/docs'', ''proj/docs/guide.md'',
      ''proj/docs/lost.md'']"

definition plainRead :: "string \<Rightarrow> string option" where
  "plainRead p =
     (if p = ''proj/a.go'' then Some ''package a''
      else if p = ''proj/b.png'' then Some ''PNG''
      else if p = ''proj/docs/guide.md'' then Some ''# Guide''
      else None)"

definition plainEnv :: "string list Env" where
  "plainEnv = fsEnv plainPaths plainRead"

definition plainTree :: DirEntry where
  "plainTree =
     Directory ''proj'' None
       [File ''a.go'' (Some 10), File ''b.png'' (Some 100),
        Directory ''docs'' None [File ''guide.md'' (Some 30), File ''lost.md'' (Some 5)]]"

definition bareGenerator :: "string list Generator" where
  "bareGenerator = NewGenerator [WithBuilder NewDefaultBuilder, WithSrcDir ''proj'']"

lemma bareGenerator_sel [simp]:
  "srcDir bareGenerator = ''proj''"
  "cliIgnoreMatcher bareGenerator = None"
  "maxSizeBytes bareGenerator = 0"
  "totalSizeLimit bareGenerator = 0"
  "files (builder bareGenerator) = []"
  "matcherCache bareGenerator = (\<lambda>dir. None)"
  by (simp_all add: bareGenerator_def NewGenerator_def zeroGenerator_def WithBuilder_def
        WithSrcDir_def NewDefaultBuilder_def)

theorem walk_without_rules_and_limits_witness:
  "cliIgnoreMatcher bareGenerator = None \<and> maxSizeBytes bareGenerator = 0
   \<and> totalSizeLimit bareGenerator = 0 \<and> readable plainTree
   \<and> map fst (underRoot ''proj'' plainTree)
       = [''proj/a.go'', ''proj/docs/guide.md'', ''proj/docs/lost.md'']
   \<and> fst (Walk plainEnv (Inr plainTree) bareGenerator) = None
   \<and> map Path (files (builder (snd (Walk plainEnv (Inr plainTree) bareGenerator))))
       = [''a.go'', ''docs/guide.md'']"
proof -
  have coh: "cacheCoherent plainEnv bareGenerator" by (rule cacheCoherent_empty) simp
  have rd: "readable plainTree" by (simp add: plainTree_def)
  have "\<forall>p \<in> set (entryPaths ''proj'' plainTree). noRulesAbove plainEnv (Dir p)"
    by code_simp
  then have norules: "\<forall>p \<in> set (entryPaths (srcDir bareGenerator) plainTree).
                        noRulesAbove plainEnv (Dir p)"
    by simp
  have u: "map fst (underRoot ''proj'' plainTree)
       = [''proj/a.go'', ''proj/docs/guide.md'', ''proj/docs/lost.md'']"
    by code_simp
  have d: "map Path (map (\<lambda>(path, info). fileDataOf plainEnv ''proj'' path (contentOf plainEnv path))
                        (filter (canBeRead plainEnv) (underRoot ''proj'' plainTree)))
             = [''a.go'', ''docs/guide.md'']"
    by code_simp
  from walk_without_rules_and_limits[OF coh rd _ norules] d
  obtain g' where "Walk plainEnv (Inr plainTree) bareGenerator = (None, g')"
    and "map Path (files (builder g')) = [''a.go'', ''docs/guide.md'']"
    by auto
  with rd u show ?thesis by simp
qed

text \<open>
  The same project seen from a directory whose own rules file names \<open>proj\<close>, and the same
  project with a directory \<open>locked\<close> that cannot be listed.
\<close>

definition parentRulesEnv :: "string list Env" where
  "parentRulesEnv =
     fsEnv (''.gitignore'' # plainPaths)
       (\<lambda>p. if p = ''.gitignore'' then Some ''proj'' else plainRead p)"

definition lockedTree :: DirEntry where
  "lockedTree =
     Directory ''proj'' None
       [File ''a.go'' (Some 10), Directory ''locked'' (Some ''permission denied'') [],
        File ''z.go'' (Some 10)]"

definition lockedEnv :: "string list Env" where
  "lockedEnv =
     fsEnv [''proj'', ''proj/a.go'', ''proj/locked'', ''proj/z.go'']
       (\<lambda>p. if p = ''proj/a.go'' \<or> p = ''proj/z.go'' then Some ''package a'' else None)"

text \<open>
  C3 as stated makes the delivered files all entries under the root that are not
  directories, not inside \<open>.git\<close> and not of a binary extension, whenever no rule set is
  configured, the tree has no rules file and the ceilings are 0. Three trees without a
  rules file show otherwise. A file whose content cannot be read (\<open>lost.md\<close>) is such an
  entry and is not delivered. When the directory above the root has a rules file that
  names the root, the root is pruned and nothing is delivered. When a directory cannot be
  listed, the walk ends with the error there and the files after it (\<open>z.go\<close>) are not
  delivered.
\<close>

theorem delivered_files_counterexample:
  "cliIgnoreMatcher bareGenerator = None \<and> maxSizeBytes bareGenerator = 0
   \<and> totalSizeLimit bareGenerator = 0
   \<and> map fst (underRoot ''proj'' plainTree)
       = [''proj/a.go'', ''proj/docs/guide.md'', ''proj/docs/lost.md'']
   \<and> fst (Walk plainEnv (Inr plainTree) bareGenerator) = None
   \<and> map Path (files (builder (snd (Walk plainEnv (Inr plainTree) bareGenerator))))
       = [''a.go'', ''docs/guide.md'']
   \<and> fst (Walk parentRulesEnv (Inr plainTree) bareGenerator) = None
   \<and> files (builder (snd (Walk parentRulesEnv (Inr plainTree) bareGenerator))) = []
   \<and> map fst (underRoot ''proj'' lockedTree) = [''proj/a.go'', ''proj/z.go'']
   \<and> fst (Walk lockedEnv (Inr lockedTree) bareGenerator) = Some (OSError ''permission denied'')
   \<and> map Path (files (builder (snd (Walk lockedEnv (Inr lockedTree) bareGenerator)))) = [''a.go'']"
proof (intro conjI)
  show "map fst (underRoot ''proj'' plainTree)
       = [''proj/a.go'', ''proj/docs/guide.md'', ''proj/docs/lost.md'']"
    by code_simp
  show "fst (Walk plainEnv (Inr plainTree) bareGenerator) = None" by code_simp
  show "map Path (files (builder (snd (Walk plainEnv (Inr plainTree) bareGenerator))))
       = [''a.go'', ''docs/guide.md'']"
    by code_simp
  show "fst (Walk parentRulesEnv (Inr plainTree) bareGenerator) = None" by code_simp
  show "files (builder (snd (Walk parentRulesEnv (Inr plainTree) bareGenerator))) = []"
    by code_simp
  show "map fst (underRoot ''proj'' lockedTree) = [''proj/a.go'', ''proj/z.go'']" by code_simp
  show "fst (Walk lockedEnv (Inr lockedTree) bareGenerator) = Some (OSError ''permission denied'')"
    by code_simp
  show "map Path (files (builder (snd (Walk lockedEnv (Inr lockedTree) bareGenerator)))) = [''a.go'']"
    by code_simp
qed simp_all




lemma runGenerator_sel [simp]:
  "srcDir (runGenerator env cfg) = SrcDir cfg"
  "maxSizeBytes (runGenerator env cfg) = MaxSizeKB cfg * 1024"
  "totalSizeLimit (runGenerator env cfg) = MaxTotalSizeMB cfg * 1024 * 1024"
  "currentTotalSize (runGenerator env cfg) = 0"
  "builder (runGenerator env cfg) = runBuilder env cfg"
  "matcherCache (runGenerator env cfg) = (\<lambda>dir. None)"
  "logged (runGenerator env cfg) = []"
  by (simp_all add: runGenerator_def NewGenerator_def zeroGenerator_def WithBuilder_def
        WithSrcDir_def WithCliIgnore_def WithMaxSize_def WithTotalSizeLimit_def)

lemma runBuilder_files [simp]: "files (runBuilder env cfg) = []"
  by (simp add: runBuilder_def selectBuilder_def SetProjectName_def SetSummary_def
        NewReviewBuilder_def NewLLMBuilder_def NewDefaultBuilder_def Let_def
        split: option.splits)


section \<open>The scan root as it is given\<close>

text \<open>
  The project of above, scanned from a directory that has a rules file of its own, which
  excludes \<open>guide.md\<close>; \<open>proj\<close> has none. The generator is set up for \<open>-src proj/\<close>.
\<close>

definition cwdRulesEnv :: "string list Env" where
  "cwdRulesEnv =
     fsEnv (''.gitignore'' # plainPaths)
       (\<lambda>p. if p = ''.gitignore'' then Some ''guide.md'' else plainRead p)"

definition slashGenerator :: "string list Generator" where
  "slashGenerator = NewGenerator [WithBuilder NewDefaultBuilder, WithSrcDir ''proj/'']"

text \<open>
  C4 asks that the resolver returns none for the scan root when the root has no rules file
  of its own. \<open>findMatcherForDir\<close> compares the queried directory, which is always a
  cleaned path, with \<open>srcDir\<close> as it was given. With \<open>-src proj\<close> the root is recognised
  and the resolver returns none for it. With \<open>-src proj/\<close> the directory \<open>proj\<close> is queried
  for the entries of the root, it is not the string \<open>proj/\<close>, and the resolver goes on to
  the parent: it returns the rule set of the current directory for the scan root, and
  \<open>docs/guide.md\<close> is excluded by a rules file outside the scanned tree.
\<close>

theorem scan_root_with_trailing_slash:
  "srcDir slashGenerator = ''proj/'' \<and> Clean ''proj/'' = ''proj''
   \<and> Dir (Join ''proj/'' ''a.go'') = ''proj''
   \<and> localMatcher cwdRulesEnv ''proj'' = None
   \<and> fst (findMatcherForDir cwdRulesEnv slashGenerator ''proj'') = Some [''guide.md'']
   \<and> fst (findMatcherForDir cwdRulesEnv bareGenerator ''proj'') = None
   \<and> map Path (files (builder (snd (Walk cwdRulesEnv (Inr plainTree) slashGenerator))))
       = [''a.go'']
   \<and> map Path (files (builder (snd (Walk cwdRulesEnv (Inr plainTree) bareGenerator))))
       = [''a.go'', ''docs/guide.md'']"
proof (intro conjI)
  show "srcDir slashGenerator = ''proj/''"
    by (simp add: slashGenerator_def NewGenerator_def WithBuilder_def WithSrcDir_def)
  show "Clean ''proj/'' = ''proj''" by code_simp
  show "Dir (Join ''proj/'' ''a.go'') = ''proj''" by code_simp
  show "localMatcher cwdRulesEnv ''proj'' = None" by code_simp
  show "fst (findMatcherForDir cwdRulesEnv slashGenerator ''proj'') = Some [''guide.md'']"
    by code_simp
  show "fst (findMatcherForDir cwdRulesEnv bareGenerator ''proj'') = None" by code_simp
  show "map Path (files (builder (snd (Walk cwdRulesEnv (Inr plainTree) slashGenerator))))
       = [''a.go'']"
    by code_simp
  show "map Path (files (builder (snd (Walk cwdRulesEnv (Inr plainTree) bareGenerator))))
       = [''a.go'', ''docs/guide.md'']"
    by code_simp
qed

section \<open>The format selector\<close>

definition exampleConfig :: Config where
  "exampleConfig =
     \<lparr>SrcDir = ''proj'', OutputFile = ''project_structure.md'', IgnoreCli = ''vendor,dist'',
      Format = ''xml'', MaxSizeKB = 2048, MaxTotalSizeMB = 100\<rparr>"

lemma run_unknown_format:
  "format \<noteq> ''review'' \<Longrightarrow> format \<noteq> ''llm''
   \<Longrightarrow> run env (cfg\<lparr>Format := format\<rparr>) lstat = run env (cfg\<lparr>Format := ''default''\<rparr>) lstat"
  by (simp add: run_def runGenerator_def runBuilder_def selectBuilder_def)

text \<open>
  C1 asks that a format identifier other than \<open>default\<close>, \<open>review\<close> and \<open>llm\<close> makes the
  operation fail, with no document and no fall-back. \<open>MarkdownBuilder.Build\<close> does so. The
  \<open>switch\<close> of \<open>run\<close> sends every identifier other than \<open>review\<close> and \<open>llm\<close> to the
  default builder: with the identifier \<open>xml\<close>, \<open>run\<close> returns no error and writes the
  document of the default template.
\<close>

theorem unknown_format_builds_default_document:
  "Format exampleConfig = ''xml''
   \<and> selectBuilder (Format exampleConfig) = NewDefaultBuilder
   \<and> run exampleEnv exampleConfig (Inr exampleTree) = Inr ''default:.gitignore;a.go;docs/guide.md;''
   \<and> MarkdownBuilder_Build executeTemplate b (Format exampleConfig)
       = Inl (OSError ''unknown format: xml'')"
proof (intro conjI)
  show "Format exampleConfig = ''xml''" by (simp add: exampleConfig_def)
  show "selectBuilder (Format exampleConfig) = NewDefaultBuilder"
    by (simp add: exampleConfig_def selectBuilder_def)
  show "run exampleEnv exampleConfig (Inr exampleTree) = Inr ''default:.gitignore;a.go;docs/guide.md;''"
    by code_simp
  show "MarkdownBuilder_Build executeTemplate b (Format exampleConfig)
       = Inl (OSError ''unknown format: xml'')"
    by (simp add: exampleConfig_def MarkdownBuilder_Build_def)
qed

section \<open>Properties of the review builder\<close>

lemma length_Split: "length (Split s sep) = count_list s sep + 1"
proof (induction s)
  case Nil
  show ?case by simp
next
  case (Cons c cs)
  have "length (tl (Split cs sep)) = count_list cs sep"
    using Cons.IH by simp
  with Cons.IH show ?case by simp
qed

lemma length_numberLinesFrom: "length (numberLinesFrom i ls) = length ls"
  by (induction ls arbitrary: i) auto

lemma nth_numberLinesFrom:
  "k < length ls \<Longrightarrow> numberLinesFrom i ls ! k = Sprintf_4d (i + k + 1) @ '': '' @ ls ! k"
proof (induction ls arbitrary: i k)
  case Nil
  then show ?case by simp
next
  case (Cons l ls)
  show ?case
  proof (cases k)
    case 0
    then show ?thesis by simp
  next
    case (Suc j)
    with Cons.prems have "j < length ls" by simp
    from Cons.IH [OF this, of "i + 1"] Suc show ?thesis by simp
  qed
qed

lemma last_numberLinesFrom:
  "numberLinesFrom i (ls @ [l]) = numberLinesFrom i ls @ [Sprintf_4d (i + length ls + 1) @ '': '' @ l]"
  by (induction ls arbitrary: i) auto

lemma length_itoa_le: "0 < k \<Longrightarrow> n < 10 ^ k \<Longrightarrow> length (itoa n) \<le> k"
proof (induction k arbitrary: n)
  case 0
  then show ?case by simp
next
  case (Suc k)
  show ?case
  proof (cases "n < 10")
    case True
    then show ?thesis by (simp add: itoa.simps[of n])
  next
    case False
    then have k: "0 < k" using Suc.prems by (cases k) auto
    from Suc.prems have "n div 10 < 10 ^ k" by (simp add: less_mult_imp_div_less mult.commute)
    from Suc.IH[OF k this] False show ?thesis by (simp add: itoa.simps[of n])
  qed
qed

lemma length_itoa_gt: "10 ^ k \<le> n \<Longrightarrow> k < length (itoa n)"
proof (induction k arbitrary: n)
  case 0
  then show ?case by (simp add: itoa.simps[of n])
next
  case (Suc k)
  have "(1::nat) \<le> 10 ^ k" by simp
  then have "(10::nat) \<le> 10 * 10 ^ k" by simp
  moreover from Suc.prems have "10 * 10 ^ k \<le> n" by simp
  ultimately have big: "\<not> n < 10" by linarith
  from Suc.prems have "10 ^ k * 10 \<le> n" by (simp add: mult.commute)
  then have "10 ^ k \<le> n div 10" by (simp add: less_eq_div_iff_mult_less_eq)
  from Suc.IH[OF this] big show ?case by (simp add: itoa.simps[of n])
qed

lemma length_Sprintf_4d_small: "n < 10000 \<Longrightarrow> length (Sprintf_4d n) = 4"
  using length_itoa_le[of 4 n] by (simp add: Sprintf_4d_def)

lemma Sprintf_4d_large: "10000 \<le> n \<Longrightarrow> Sprintf_4d n = itoa n \<and> 4 < length (itoa n)"
  using length_itoa_gt[of 4 n] by (simp add: Sprintf_4d_def)

lemma reviewFiles_map: "reviewFiles fs = map reviewFile fs"
  by (induction fs) auto

lemma Split_replicate_sep: "Split (replicate n sep) sep = replicate (Suc n) []"
  by (induction n) auto

text \<open>
  A template that prints line \<open>i\<close> of file \<open>k\<close> of the numbered files it is given, and fails
  when there is no such line or when the files come without numbered lines. With it the
  lines that \<open>Build\<close> hands to the template can be read off the document.
\<close>

definition lineProbe :: "nat \<Rightarrow> nat \<Rightarrow> string list Env" where
  "lineProbe k i =
     (fsEnv [] (\<lambda>p. None))
       \<lparr>ExecuteTemplate :=
          (\<lambda>t input.
             case input of
               ReviewTemplateData name summary rfs \<Rightarrow>
                 if k < length rfs \<and> i < length (Lines (rfs ! k))
                 then Inr (Lines (rfs ! k) ! i) else Inl (OSError ''no such line'')
             | TemplateData name summary fs \<Rightarrow> Inl (OSError ''no numbered lines''))\<rparr>"

lemma lineProbe_line:
  "k < length rfs \<Longrightarrow> i < length (Lines (rfs ! k)) \<Longrightarrow>
     ExecuteTemplate (lineProbe k i) t (ReviewTemplateData name summary rfs)
       = Inr (Lines (rfs ! k) ! i)"
  by (simp add: lineProbe_def)

lemma lineProbe_no_line:
  "k < length rfs \<Longrightarrow> length (Lines (rfs ! k)) \<le> i \<Longrightarrow>
     ExecuteTemplate (lineProbe k i) t (ReviewTemplateData name summary rfs)
       = Inl (OSError ''no such line'')"
  by (simp add: lineProbe_def)

lemma Build_review:
  "kind b = ReviewBuilder \<Longrightarrow>
     Build env b
       = ExecuteTemplate env Review
           (ReviewTemplateData (projectName b) (projectSummary b) (reviewFiles (files b)))"
  by (simp add: Build_def)

text \<open>
  C7, as the code has it. For every batch of files added to the review builder, \<open>Build\<close>
  gives the review template one entry per file, in order, under the file's path, and
  nothing else in place of the files. The lines of the entry are the pieces of the file's
  own content between the newlines, numbered from 1 in order: line \<open>i + 1\<close> is the number
  printed by \<open>%4d\<close>, a colon, a space and the text. The lines of a file depend on the
  content of that file alone. The number is right-aligned in a field of four characters as
  long as it is below 10000; from 10000 on it is printed in full and the field is wider
  than four. A three-line file is numbered 1, 2, 3.
\<close>

theorem review_numbering:
  assumes "kind b = ReviewBuilder" and "k < length (files b)"
      and "i < length (Split (Content (files b ! k)) (CHR 0x0A))"
  shows "Build env b
           = ExecuteTemplate env Review
               (ReviewTemplateData (projectName b) (projectSummary b) (reviewFiles (files b)))
       \<and> length (reviewFiles (files b)) = length (files b)
       \<and> rfPath (reviewFiles (files b) ! k) = Path (files b ! k)
       \<and> Lines (reviewFiles (files b) ! k) = numberedLines (Content (files b ! k))
       \<and> length (Lines (reviewFiles (files b) ! k))
           = length (Split (Content (files b ! k)) (CHR 0x0A))
       \<and> Lines (reviewFiles (files b) ! k) ! i
           = Sprintf_4d (i + 1) @ '': '' @ Split (Content (files b ! k)) (CHR 0x0A) ! i
       \<and> Sprintf_4d (i + 1) = replicate (4 - length (itoa (i + 1))) (CHR '' '') @ itoa (i + 1)
       \<and> (if i + 1 < 10000 then length (Sprintf_4d (i + 1)) = 4
          else Sprintf_4d (i + 1) = itoa (i + 1) \<and> 4 < length (Sprintf_4d (i + 1)))
       \<and> (Content (files b ! k) = [CHR ''a'', CHR 0x0A, CHR ''b'', CHR 0x0A, CHR ''c''] \<longrightarrow>
            Lines (reviewFiles (files b) ! k) = [''   1: a'', ''   2: b'', ''   3: c''])
       \<and> numberedLines [CHR ''a'', CHR 0x0A, CHR ''b'', CHR 0x0A, CHR ''c'']
           = [''   1: a'', ''   2: b'', ''   3: c'']"
proof -
  let ?fs = "files b"
  have b: "Build env b
           = ExecuteTemplate env Review
               (ReviewTemplateData (projectName b) (projectSummary b) (reviewFiles ?fs))"
    using assms(1) by (rule Build_review)
  have l: "Lines (reviewFiles ?fs ! k) = numberedLines (Content (?fs ! k))"
    using assms(2) by (simp add: reviewFiles_map reviewFile_def)
  have p: "rfPath (reviewFiles ?fs ! k) = Path (?fs ! k)"
    using assms(2) by (simp add: reviewFiles_map reviewFile_def)
  have n: "Lines (reviewFiles ?fs ! k) ! i
           = Sprintf_4d (i + 1) @ '': '' @ Split (Content (?fs ! k)) (CHR 0x0A) ! i"
    using nth_numberLinesFrom[OF assms(3), of 0] by (simp add: l numberedLines_def)
  have w: "if i + 1 < 10000 then length (Sprintf_4d (i + 1)) = 4
          else Sprintf_4d (i + 1) = itoa (i + 1) \<and> 4 < length (Sprintf_4d (i + 1))"
    using length_Sprintf_4d_small[of "i + 1"] Sprintf_4d_large[of "i + 1"] by auto
  have e: "numberedLines [CHR ''a'', CHR 0x0A, CHR ''b'', CHR 0x0A, CHR ''c'']
           = [''   1: a'', ''   2: b'', ''   3: c'']"
    by code_simp
  have t: "Content (?fs ! k) = [CHR ''a'', CHR 0x0A, CHR ''b'', CHR 0x0A, CHR ''c''] \<longrightarrow>
            Lines (reviewFiles ?fs ! k) = [''   1: a'', ''   2: b'', ''   3: c'']"
    using e l by simp
  have len: "length (reviewFiles ?fs) = length ?fs" by (simp add: reviewFiles_map)
  have ll: "length (Lines (reviewFiles ?fs ! k)) = length (Split (Content (?fs ! k)) (CHR 0x0A))"
    by (simp add: l numberedLines_def length_numberLinesFrom)
  have s: "Sprintf_4d (i + 1) = replicate (4 - length (itoa (i + 1))) (CHR '' '') @ itoa (i + 1)"
    by (simp add: Sprintf_4d_def)
  from b len p l ll n s w t e show ?thesis by blast
qed

lemma numberedLines_newlines:
  assumes "i \<le> n"
  shows "numberedLines (replicate n (CHR 0x0A)) ! i = Sprintf_4d (i + 1) @ '': ''"
    and "length (numberedLines (replicate n (CHR 0x0A))) = n + 1"
proof -
  have s: "Split (replicate n (CHR 0x0A)) (CHR 0x0A) = replicate (Suc n) []"
    by (rule Split_replicate_sep)
  have i: "i < length (replicate (Suc n) ([]::string))" using assms by simp
  have e: "replicate (Suc n) ([]::string) ! i = []" using i by (intro nth_replicate) simp
  show "numberedLines (replicate n (CHR 0x0A)) ! i = Sprintf_4d (i + 1) @ '': ''"
    unfolding numberedLines_def s nth_numberLinesFrom[OF i, of 0] e by simp
  show "length (numberedLines (replicate n (CHR 0x0A))) = n + 1"
    by (simp add: numberedLines_def s length_numberLinesFrom)
qed

text \<open>A file of 10000 lines: 9999 newlines.\<close>

definition longFile :: FileData where
  "longFile = \<lparr>Path = ''long.txt'', Content = replicate 9999 (CHR 0x0A), Language = []\<rparr>"

lemma digit_values:
  "digit 0 = CHR ''0''" "digit 1 = CHR ''1''" "digit 2 = CHR ''2''" "digit 3 = CHR ''3''"
  "digit 4 = CHR ''4''" "digit 5 = CHR ''5''" "digit 6 = CHR ''6''" "digit 7 = CHR ''7''"
  "digit 8 = CHR ''8''" "digit 9 = CHR ''9''"
  by code_simp+

lemma itoa_1: "itoa (Suc 0) = ''1''"
  using digit_values(2) by (simp add: itoa.simps[of "Suc 0"])

lemma itoa_10000: "itoa 10000 = ''10000''"
  by (simp add: itoa.simps[of 10000] itoa.simps[of 1000] itoa.simps[of 100] itoa.simps[of 10]
        itoa_1 digit_values)

lemma Sprintf_4d_examples: "Sprintf_4d 10000 = ''10000''" "Sprintf_4d 1 = ''   1''"
proof -
  show "Sprintf_4d 10000 = ''10000''" by (simp add: Sprintf_4d_def itoa_10000)
  have "replicate 3 (CHR '' '') = ''   ''" by (simp add: numeral_3_eq_3)
  then show "Sprintf_4d 1 = ''   1''" by (simp add: Sprintf_4d_def itoa_1)
qed

definition longBuilder :: DocumentBuilder where
  "longBuilder = AddFile NewReviewBuilder longFile"

lemma longBuilder_sel [simp]:
  "kind longBuilder = ReviewBuilder" "files longBuilder = [longFile]"
  by (simp_all add: longBuilder_def AddFile_def NewReviewBuilder_def)

theorem review_numbering_witness:
  "kind longBuilder = ReviewBuilder \<and> files longBuilder = [longFile]
   \<and> Build (lineProbe 0 9999) longBuilder = Inr ''10000: ''
   \<and> Build (lineProbe 0 0) longBuilder = Inr ''   1: ''
   \<and> length (Lines (reviewFiles (files longBuilder) ! 0)) = 10000"
proof -
  have c: "Content (files longBuilder ! 0) = replicate 9999 (CHR 0x0A)"
    by (simp add: longFile_def)
  have s: "Split (Content (files longBuilder ! 0)) (CHR 0x0A) = replicate (Suc 9999) []"
    unfolding c by (rule Split_replicate_sep)
  have kd: "kind longBuilder = ReviewBuilder" by simp
  have k: "(0::nat) < length (files longBuilder)" by simp
  have i1: "9999 < length (Split (Content (files longBuilder ! 0)) (CHR 0x0A))"
    unfolding s by simp
  have i0: "0 < length (Split (Content (files longBuilder ! 0)) (CHR 0x0A))"
    unfolding s by simp
  let ?rfs = "reviewFiles (files longBuilder)"
  from review_numbering[OF kd k i1, of "lineProbe 0 9999"]
  have b1: "Build (lineProbe 0 9999) longBuilder
              = ExecuteTemplate (lineProbe 0 9999) Review
                  (ReviewTemplateData (projectName longBuilder) (projectSummary longBuilder) ?rfs)"
    and n: "length ?rfs = length (files longBuilder)"
    and x: "Lines (?rfs ! 0) ! 9999
             = Sprintf_4d (9999 + 1) @ '': '' @ Split (Content (files longBuilder ! 0)) (CHR 0x0A) ! 9999"
    and l: "length (Lines (?rfs ! 0)) = length (Split (Content (files longBuilder ! 0)) (CHR 0x0A))"
    by blast+
  from review_numbering[OF kd k i0, of "lineProbe 0 0"]
  have b0: "Build (lineProbe 0 0) longBuilder
              = ExecuteTemplate (lineProbe 0 0) Review
                  (ReviewTemplateData (projectName longBuilder) (projectSummary longBuilder) ?rfs)"
    and y: "Lines (?rfs ! 0) ! 0
             = Sprintf_4d (0 + 1) @ '': '' @ Split (Content (files longBuilder ! 0)) (CHR 0x0A) ! 0"
    by blast+
  have n1: "replicate (Suc 9999) ([]::string) ! 9999 = []" by (rule nth_replicate) simp
  have n0: "replicate (Suc 9999) ([]::string) ! 0 = []" by (rule nth_replicate) simp
  have k': "0 < length ?rfs" unfolding n by (rule k)
  have len: "length (Lines (?rfs ! 0)) = 10000" unfolding l s by simp
  have j1: "9999 < length (Lines (?rfs ! 0))" unfolding len by simp
  have j0: "0 < length (Lines (?rfs ! 0))" unfolding len by simp
  have x': "Lines (?rfs ! 0) ! 9999 = ''10000: ''"
    unfolding x s n1 using Sprintf_4d_examples(1) by simp
  have y': "Lines (?rfs ! 0) ! 0 = ''   1: ''"
    unfolding y s n0 using Sprintf_4d_examples(2) by simp
  have "Build (lineProbe 0 9999) longBuilder = Inr ''10000: ''"
    unfolding b1 lineProbe_line[OF k' j1] x' by (rule refl)
  moreover have "Build (lineProbe 0 0) longBuilder = Inr ''   1: ''"
    unfolding b0 lineProbe_line[OF k' j0] y' by (rule refl)
  ultimately show ?thesis using len by simp
qed

text \<open>
  C7 as stated asks for a number field of one fixed width for every line of every file. In
  the document that the review builder builds from a file of 10000 lines, the first line
  has the four-character field \<open>"   1"\<close> and the last line the five-character field
  \<open>"10000"\<close>.
\<close>

theorem review_number_width_counterexample:
  "kind longBuilder = ReviewBuilder \<and> files longBuilder = [longFile]
   \<and> Build (lineProbe 0 0) longBuilder = Inr ''   1: ''
   \<and> Build (lineProbe 0 9999) longBuilder = Inr ''10000: ''
   \<and> Build (lineProbe 0 10000) longBuilder = Inl (OSError ''no such line'')"
proof -
  let ?rfs = "reviewFiles (files longBuilder)"
  have r: "?rfs = [reviewFile longFile]" by simp
  have k: "0 < length [reviewFile longFile]" by simp
  have L: "Lines ([reviewFile longFile] ! 0) = numberedLines (replicate 9999 (CHR 0x0A))"
    by (simp add: reviewFile_def longFile_def)
  have len: "length (Lines ([reviewFile longFile] ! 0)) = 10000"
    unfolding L using numberedLines_newlines(2)[of 0 9999] by simp
  have j1: "9999 < length (Lines ([reviewFile longFile] ! 0))" unfolding len by simp
  have j0: "0 < length (Lines ([reviewFile longFile] ! 0))" unfolding len by simp
  have j2: "length (Lines ([reviewFile longFile] ! 0)) \<le> 10000" unfolding len by simp
  have x: "Lines ([reviewFile longFile] ! 0) ! 9999 = ''10000: ''"
    unfolding L using numberedLines_newlines(1)[of 9999 9999] Sprintf_4d_examples(1) by simp
  have y: "Lines ([reviewFile longFile] ! 0) ! 0 = ''   1: ''"
    unfolding L using numberedLines_newlines(1)[of 0 9999] Sprintf_4d_examples(2) by simp
  have "Build (lineProbe 0 0) longBuilder = Inr ''   1: ''"
    unfolding Build_review[OF longBuilder_sel(1)] r lineProbe_line[OF k j0] y by (rule refl)
  moreover have "Build (lineProbe 0 9999) longBuilder = Inr ''10000: ''"
    unfolding Build_review[OF longBuilder_sel(1)] r lineProbe_line[OF k j1] x by (rule refl)
  moreover have "Build (lineProbe 0 10000) longBuilder = Inl (OSError ''no such line'')"
    unfolding Build_review[OF longBuilder_sel(1)] r lineProbe_no_line[OF k j2] by (rule refl)
  ultimately show ?thesis by simp
qed

text \<open>
  C10. For every file added to the review builder, \<open>Build\<close> gives the review template
  exactly (number of newline characters in the content of the file) + 1 numbered lines for
  it; a content ending in a newline yields a final numbered empty line, and the empty
  content yields one numbered empty line.
\<close>

theorem review_line_count:
  assumes "kind b = ReviewBuilder" and "k < length (files b)"
  shows "Build env b
           = ExecuteTemplate env Review
               (ReviewTemplateData (projectName b) (projectSummary b) (reviewFiles (files b)))
       \<and> length (reviewFiles (files b)) = length (files b)
       \<and> length (Lines (reviewFiles (files b) ! k))
           = count_list (Content (files b ! k)) (CHR 0x0A) + 1
       \<and> (\<forall>c. Content (files b ! k) = c @ [CHR 0x0A] \<longrightarrow>
              last (Lines (reviewFiles (files b) ! k))
                = Sprintf_4d (count_list c (CHR 0x0A) + 2) @ '': '')
       \<and> (Content (files b ! k) = [] \<longrightarrow> Lines (reviewFiles (files b) ! k) = [''   1: ''])"
proof (intro conjI allI impI)
  have l: "Lines (reviewFiles (files b) ! k) = numberedLines (Content (files b ! k))"
    using assms(2) by (simp add: reviewFiles_map reviewFile_def)
  show "Build env b
           = ExecuteTemplate env Review
               (ReviewTemplateData (projectName b) (projectSummary b) (reviewFiles (files b)))"
    using assms(1) by (rule Build_review)
  show "length (reviewFiles (files b)) = length (files b)" by (simp add: reviewFiles_map)
  show "length (Lines (reviewFiles (files b) ! k))
           = count_list (Content (files b ! k)) (CHR 0x0A) + 1"
    by (simp add: l numberedLines_def length_numberLinesFrom length_Split)
  show "last (Lines (reviewFiles (files b) ! k))
                = Sprintf_4d (count_list c (CHR 0x0A) + 2) @ '': ''"
    if "Content (files b ! k) = c @ [CHR 0x0A]" for c
    using that
    by (simp add: l numberedLines_def Split_append_sep last_numberLinesFrom length_Split)
  have "numberedLines [] = [''   1: '']" by code_simp
  then show "Lines (reviewFiles (files b) ! k) = [''   1: '']" if "Content (files b ! k) = []"
    using that by (simp add: l)
qed

text \<open>
  A review builder with two files: one line ended by a newline, and an empty file.
\<close>

definition twoFiles :: DocumentBuilder where
  "twoFiles =
     AddFile
       (AddFile NewReviewBuilder
          \<lparr>Path = ''x.txt'', Content = [CHR ''x'', CHR 0x0A], Language = []\<rparr>)
       \<lparr>Path = ''empty.txt'', Content = [], Language = []\<rparr>"

theorem review_line_count_witness:
  "kind twoFiles = ReviewBuilder \<and> length (files twoFiles) = 2
   \<and> length (Lines (reviewFiles (files twoFiles) ! 0)) = 2
   \<and> Lines (reviewFiles (files twoFiles) ! 1) = [''   1: '']
   \<and> Build (lineProbe 0 0) twoFiles = Inr ''   1: x''
   \<and> Build (lineProbe 0 1) twoFiles = Inr ''   2: ''
   \<and> Build (lineProbe 0 2) twoFiles = Inl (OSError ''no such line'')
   \<and> Build (lineProbe 1 0) twoFiles = Inr ''   1: ''
   \<and> Build (lineProbe 1 1) twoFiles = Inl (OSError ''no such line'')"
proof -
  have kd: "kind twoFiles = ReviewBuilder"
    by (simp add: twoFiles_def AddFile_def NewReviewBuilder_def)
  have n: "length (files twoFiles) = 2"
    by (simp add: twoFiles_def AddFile_def NewReviewBuilder_def)
  have k0: "0 < length (files twoFiles)" and k1: "1 < length (files twoFiles)"
    unfolding n by simp_all
  have c0: "Content (files twoFiles ! 0) = [CHR ''x'', CHR 0x0A]"
    and c1: "Content (files twoFiles ! 1) = []"
    by (simp_all add: twoFiles_def AddFile_def NewReviewBuilder_def)
  let ?input = "ReviewTemplateData (projectName twoFiles) (projectSummary twoFiles)
                  (reviewFiles (files twoFiles))"
  have e: "ExecuteTemplate (lineProbe 0 0) Review ?input = Inr ''   1: x''"
       "ExecuteTemplate (lineProbe 0 1) Review ?input = Inr ''   2: ''"
       "ExecuteTemplate (lineProbe 0 2) Review ?input = Inl (OSError ''no such line'')"
       "ExecuteTemplate (lineProbe 1 0) Review ?input = Inr ''   1: ''"
       "ExecuteTemplate (lineProbe 1 1) Review ?input = Inl (OSError ''no such line'')"
    by code_simp+
  have B: "Build env twoFiles = ExecuteTemplate env Review ?input" for env :: "string list Env"
    using review_line_count[OF kd k0, of env] by blast
  have l0: "length (Lines (reviewFiles (files twoFiles) ! 0)) = 2"
    using review_line_count[OF kd k0, of "lineProbe 0 0"] unfolding c0 by simp
  have l1: "Lines (reviewFiles (files twoFiles) ! 1) = [''   1: '']"
    using review_line_count[OF kd k1, of "lineProbe 0 0"] c1 by blast
  show ?thesis unfolding B e using kd n l0 l1 by simp
qed

end
